theory Spec2Isabelle
  imports Main "HOL-Library.AList"
begin

section \<open>The Stockholm reader of skbio/io/format/stockholm.py\<close>

text \<open>
  The model follows the Python source function by function.

  \<^item> A text string is a \<open>string\<close>; one \<open>char\<close> stands for one code point below 256.
  \<^item> The input stream \<open>fh\<close> is the list of its lines, each line keeping its own
    line terminator as the file iterator delivers it. Iterating the stream twice
    (\<open>fh.seek(0)\<close> between the loops) is iterating the same list twice.
  \<^item> A \<open>dict\<close> and the \<open>OrderedDict\<close> are association lists in insertion order;
    \<open>k in d.keys()\<close> is \<open>k \<in> fst ` set d\<close>, \<open>d[k] = v\<close> is \<open>AList.update k v d\<close>
    (a new key goes to the end, an old key keeps its place).
  \<^item> Every exception is a value: a function that can raise returns \<open>error + result\<close>.
\<close>

subsection \<open>Errors\<close>

text \<open>
  The texts of the \<open>StockholmFormatError\<close>s raised by the module, each with the values
  that the source formats into it with \<open>%r\<close>.
\<close>

datatype format_message =
    NonexistentData string          \<comment> \<open>Markup line references nonexistent data %r.\<close>
  | DuplicateGR string string       \<comment> \<open>Found duplicate GR label %r associated with data label %r\<close>
  | DuplicateGC string              \<comment> \<open>Found duplicate GC label %r.\<close>
  | MultipleDataLines string        \<comment> \<open>Found multiple data lines under same name: %r\<close>
  | NoDataPresent                   \<comment> \<open>No data present in file.\<close>

text \<open>
  \<open>IndexError\<close> is what Python raises for a list index out of range.
  \<open>CollaboratorError\<close> carries the text of whatever the sequence constructor or
  \<open>TabularMSA\<close> raises; both are defined outside this module.
\<close>

datatype error =
    StockholmFormatError format_message
  | IndexError
  | CollaboratorError string

subsection \<open>Python string and list primitives\<close>

definition newline :: char where
  "newline = CHR 0x0A"

text \<open>The characters for which \<open>str.isspace\<close> holds, among the code points below 256.\<close>

definition isspace_char :: "char \<Rightarrow> bool" where
  "isspace_char c \<longleftrightarrow> c \<in> set [CHR 0x09, CHR 0x0A, CHR 0x0B, CHR 0x0C, CHR 0x0D,
      CHR 0x1C, CHR 0x1D, CHR 0x1E, CHR 0x1F, CHR 0x20, CHR 0x85, CHR 0xA0]"

text \<open>\<open>s.isspace()\<close>: at least one character, and all of them whitespace.\<close>

definition isspace :: "string \<Rightarrow> bool" where
  "isspace s \<longleftrightarrow> s \<noteq> [] \<and> list_all isspace_char s"

text \<open>\<open>s.startswith(p)\<close>\<close>

definition startswith :: "string \<Rightarrow> string \<Rightarrow> bool" where
  "startswith s p \<longleftrightarrow> take (length p) s = p"

text \<open>
  \<open>s.split()\<close>: the maximal runs of non-whitespace characters, in order.
  The first argument holds the characters of the current run, newest first.
\<close>

fun split_ws_aux :: "string \<Rightarrow> string \<Rightarrow> string list" where
  "split_ws_aux acc [] = (if acc = [] then [] else [rev acc])"
| "split_ws_aux acc (c # cs) =
     (if isspace_char c
      then (if acc = [] then split_ws_aux [] cs else rev acc # split_ws_aux [] cs)
      else split_ws_aux (c # acc) cs)"

definition split_ws :: "string \<Rightarrow> string list" where
  "split_ws s = split_ws_aux [] s"

text \<open>
  \<open>s.split(sep, maxsplit)\<close> for a separator of one character: cuts at each of the first
  \<open>maxsplit\<close> separators; empty fields are kept, the last field is the unsplit rest.
\<close>

fun split_sep_aux :: "char \<Rightarrow> nat \<Rightarrow> string \<Rightarrow> string \<Rightarrow> string list" where
  "split_sep_aux sep n acc [] = [rev acc]"
| "split_sep_aux sep 0 acc (c # cs) = [rev acc @ c # cs]"
| "split_sep_aux sep (Suc n) acc (c # cs) =
     (if c = sep then rev acc # split_sep_aux sep n [] cs
      else split_sep_aux sep (Suc n) (c # acc) cs)"

definition split_sep :: "char \<Rightarrow> nat \<Rightarrow> string \<Rightarrow> string list" where
  "split_sep sep maxsplit s = split_sep_aux sep maxsplit [] s"

text \<open>\<open>s.rstrip('\n')\<close>\<close>

definition rstrip_newline :: "string \<Rightarrow> string" where
  "rstrip_newline s = rev (dropWhile (\<lambda>c. c = newline) (rev s))"

text \<open>\<open>xs[i]\<close> for an index \<open>i \<ge> 0\<close>\<close>

definition index :: "'a list \<Rightarrow> nat \<Rightarrow> error + 'a" where
  "index xs i = (if i < length xs then Inr (xs ! i) else Inl IndexError)"

text \<open>\<open>list(s)\<close> of a string: its characters, each a string of length one.\<close>

definition list_of_str :: "string \<Rightarrow> string list" where
  "list_of_str s = map (\<lambda>c. [c]) s"

text \<open>Sequencing of computations that may raise.\<close>

definition bind_err :: "'x + 'a \<Rightarrow> ('a \<Rightarrow> 'x + 'b) \<Rightarrow> 'x + 'b" where
  "bind_err m f = (case m of Inl e \<Rightarrow> Inl e | Inr a \<Rightarrow> f a)"

subsection \<open>Data\<close>

type_synonym metadata_dict = "(string \<times> string) list"
type_synonym pos_metadata_dict = "(string \<times> string list) list"

text \<open>The named tuple \<open>_SeqData\<close>.\<close>

record seq_data =
  seq :: string
  metadata :: metadata_dict
  pos_metadata :: pos_metadata_dict

type_synonym dna_data_dict = "(string \<times> seq_data) list"

subsection \<open>The sniffer\<close>

text \<open>
  \<open>next(fh)\<close> takes the first line off the stream. The result is the pair that the
  source returns (the keyword dictionary is always empty) and the stream that is left.
\<close>

definition stockholm_sniffer :: "string list \<Rightarrow> (bool \<times> (string \<times> string) list) \<times> string list" where
  "stockholm_sniffer fh =
     (case fh of
        [] \<Rightarrow> ((False, []), [])
      | line # rest \<Rightarrow>
          if take 15 line = ''# STOCKHOLM 1.0'' then ((True, []), rest)
          else ((False, []), rest))"

subsection \<open>The line parsers\<close>

definition is_data_line :: "string \<Rightarrow> bool" where
  "is_data_line line \<longleftrightarrow>
     \<not> (startswith line ''#'' \<or> startswith line ''//'' \<or> isspace line)"

text \<open>
  \<open>_remove_newline\<close>: \<open>line[len(line)-1]\<close> is \<open>line[-1]\<close> on the empty list, which
  raises; otherwise the last field loses its trailing newlines.
\<close>

definition remove_newline :: "string list \<Rightarrow> error + string list" where
  "remove_newline line =
     (if line = [] then Inl IndexError
      else let n_line = last line in
        if newline \<in> set n_line then Inr (butlast line @ [rstrip_newline n_line])
        else Inr line)"

definition parse_stockholm_line_gf :: "string \<Rightarrow> metadata_dict \<Rightarrow> error + metadata_dict" where
  "parse_stockholm_line_gf line0 md =
     bind_err (remove_newline (split_sep CHR '' '' 2 line0)) (\<lambda>line.
     bind_err (index line 1) (\<lambda>gf_feature.
     bind_err (index line 2) (\<lambda>gf_feature_data.
       case map_of md gf_feature of
         Some old \<Rightarrow> Inr (AList.update gf_feature (old @ '' '' @ gf_feature_data) md)
       | None \<Rightarrow> Inr (AList.update gf_feature gf_feature_data md))))"

definition parse_stockholm_line_gs :: "string \<Rightarrow> dna_data_dict \<Rightarrow> error + dna_data_dict" where
  "parse_stockholm_line_gs line0 dna_data =
     bind_err (remove_newline (split_sep CHR '' '' 3 line0)) (\<lambda>line.
     bind_err (index line 1) (\<lambda>data_seq_name.
     bind_err (index line 2) (\<lambda>gs_feature.
       case map_of dna_data data_seq_name of
         Some d \<Rightarrow>
           if metadata d = [] then
             bind_err (index line 3) (\<lambda>v.
               Inr (AList.update data_seq_name
                      (d\<lparr>metadata := AList.update gs_feature v (metadata d)\<rparr>) dna_data))
           else Inr dna_data
       | None \<Rightarrow> Inl (StockholmFormatError (NonexistentData data_seq_name)))))"

definition parse_stockholm_line_gr :: "string \<Rightarrow> dna_data_dict \<Rightarrow> error + dna_data_dict" where
  "parse_stockholm_line_gr line0 dna_data =
     bind_err (remove_newline (split_ws line0)) (\<lambda>line.
     bind_err (index line 1) (\<lambda>data_seq_name.
     bind_err (index line 2) (\<lambda>gr_feature.
       case map_of dna_data data_seq_name of
         Some d \<Rightarrow>
           if gr_feature \<in> fst ` set (pos_metadata d)
           then Inl (StockholmFormatError (DuplicateGR gr_feature data_seq_name))
           else
             bind_err (index line 3) (\<lambda>v.
               Inr (AList.update data_seq_name
                      (d\<lparr>pos_metadata := AList.update gr_feature (list_of_str v) (pos_metadata d)\<rparr>)
                      dna_data))
       | None \<Rightarrow> Inl (StockholmFormatError (NonexistentData data_seq_name)))))"

definition parse_stockholm_line_gc :: "string \<Rightarrow> pos_metadata_dict \<Rightarrow> error + pos_metadata_dict" where
  "parse_stockholm_line_gc line0 positional_metadata =
     bind_err (remove_newline (split_ws line0)) (\<lambda>line.
     bind_err (index line 1) (\<lambda>gc_feature.
       if gc_feature \<in> fst ` set positional_metadata
       then Inl (StockholmFormatError (DuplicateGC gc_feature))
       else
         bind_err (index line 2) (\<lambda>v.
           Inr (AList.update gc_feature (list_of_str v) positional_metadata))))"

definition parse_stockholm_line_data :: "string \<Rightarrow> dna_data_dict \<Rightarrow> error + dna_data_dict" where
  "parse_stockholm_line_data line0 dna_data =
     (let line = split_ws line0 in
      bind_err (index line 0) (\<lambda>data_seq_name.
        if data_seq_name \<notin> fst ` set dna_data then
          bind_err (index line 1) (\<lambda>s.
            Inr (AList.update data_seq_name
                   \<lparr>seq = s, metadata = [], pos_metadata = []\<rparr> dna_data))
        else Inl (StockholmFormatError (MultipleDataLines data_seq_name))))"

subsection \<open>The reader\<close>

text \<open>First loop of \<open>_stockholm_to_tabular_msa\<close>: the data lines, in the order of the stream.\<close>

fun data_pass :: "string list \<Rightarrow> dna_data_dict \<Rightarrow> error + dna_data_dict" where
  "data_pass [] dna_data = Inr dna_data"
| "data_pass (line # fh) dna_data =
     (if is_data_line line
      then bind_err (parse_stockholm_line_data line dna_data) (data_pass fh)
      else data_pass fh dna_data)"

text \<open>
  Second loop: the markup lines. The state is \<open>(metadata, dna_data, positional_metadata)\<close>.
\<close>

fun markup_pass ::
  "string list \<Rightarrow> metadata_dict \<times> dna_data_dict \<times> pos_metadata_dict \<Rightarrow>
   error + metadata_dict \<times> dna_data_dict \<times> pos_metadata_dict" where
  "markup_pass [] st = Inr st"
| "markup_pass (line # fh) (md, dna_data, positional_metadata) =
     (if startswith line ''#=GF'' then
        bind_err (parse_stockholm_line_gf line md)
          (\<lambda>md'. markup_pass fh (md', dna_data, positional_metadata))
      else if startswith line ''#=GS'' then
        bind_err (parse_stockholm_line_gs line dna_data)
          (\<lambda>dna_data'. markup_pass fh (md, dna_data', positional_metadata))
      else if startswith line ''#=GR'' then
        bind_err (parse_stockholm_line_gr line dna_data)
          (\<lambda>dna_data'. markup_pass fh (md, dna_data', positional_metadata))
      else if startswith line ''#=GC'' then
        bind_err (parse_stockholm_line_gc line positional_metadata)
          (\<lambda>pm'. markup_pass fh (md, dna_data, pm'))
      else markup_pass fh (md, dna_data, positional_metadata))"

text \<open>
  A call of a function defined outside the module (the sequence constructor,
  \<open>TabularMSA\<close>): what it raises is passed on as a \<open>CollaboratorError\<close>.
\<close>

definition call_out :: "string + 'a \<Rightarrow> error + 'a" where
  "call_out r = (case r of Inl e \<Rightarrow> Inl (CollaboratorError e) | Inr a \<Rightarrow> Inr a)"

text \<open>\<open>None\<close> for an empty dictionary (\<open>if not d: d = None\<close>).\<close>

definition none_if_empty :: "'a list \<Rightarrow> 'a list option" where
  "none_if_empty d = (if d = [] then None else Some d)"

text \<open>
  Third loop: one constructor call per record, in key order. The records whose empty
  dictionaries the source replaces by \<open>None\<close> are read by this call only, so the model
  passes the replaced values on and leaves \<open>dna_data\<close> as it is.
\<close>

fun assemble ::
  "(string \<Rightarrow> metadata_dict option \<Rightarrow> pos_metadata_dict option \<Rightarrow> string + 's) \<Rightarrow>
   dna_data_dict \<Rightarrow> error + 's list" where
  "assemble constructor [] = Inr []"
| "assemble constructor ((key, d) # rest) =
     bind_err (call_out (constructor (seq d) (none_if_empty (metadata d))
                           (none_if_empty (pos_metadata d))))
       (\<lambda>s. bind_err (assemble constructor rest) (\<lambda>seqs. Inr (s # seqs)))"

text \<open>
  \<open>_stockholm_to_tabular_msa\<close>. \<open>constructor\<close> and \<open>tabular_msa\<close> are the two outside
  functions; \<open>tabular_msa seqs metadata positional_metadata index\<close> is the final call.
\<close>

definition stockholm_to_tabular_msa ::
  "(string \<Rightarrow> metadata_dict option \<Rightarrow> pos_metadata_dict option \<Rightarrow> string + 's) \<Rightarrow>
   ('s list \<Rightarrow> metadata_dict \<Rightarrow> pos_metadata_dict option \<Rightarrow> string list \<Rightarrow> string + 'm) \<Rightarrow>
   string list \<Rightarrow> error + 'm" where
  "stockholm_to_tabular_msa constructor tabular_msa fh =
     bind_err (data_pass fh []) (\<lambda>dna_data0.
     bind_err (markup_pass fh ([], dna_data0, [])) (\<lambda>(md, dna_data, positional_metadata).
     bind_err (assemble constructor dna_data) (\<lambda>seqs.
       if seqs = [] then Inl (StockholmFormatError NoDataPresent)
       else call_out (tabular_msa seqs md (none_if_empty positional_metadata)
                        (map fst dna_data)))))"

text \<open>
  For stating properties: the labels of the data lines of a stream (the first
  whitespace-delimited field of each line that \<open>is_data_line\<close> accepts), in stream
  order, and their sequence tokens (the second field).
\<close>

definition data_labels :: "string list \<Rightarrow> string list" where
  "data_labels fh = concat (map (\<lambda>line. take 1 (split_ws line)) (filter is_data_line fh))"

definition data_tokens :: "string list \<Rightarrow> string list" where
  "data_tokens fh = concat (map (\<lambda>line. take 1 (drop 1 (split_ws line))) (filter is_data_line fh))"

text \<open>
  Stand-ins for the two outside functions that accept everything and return their
  arguments, for running the reader on concrete streams.
\<close>

definition plain_constructor ::
  "string \<Rightarrow> metadata_dict option \<Rightarrow> pos_metadata_dict option \<Rightarrow>
   string + string \<times> metadata_dict option \<times> pos_metadata_dict option" where
  "plain_constructor s m p = Inr (s, m, p)"

definition plain_msa ::
  "'s list \<Rightarrow> metadata_dict \<Rightarrow> pos_metadata_dict option \<Rightarrow> string list \<Rightarrow>
   string + 's list \<times> metadata_dict \<times> pos_metadata_dict option \<times> string list" where
  "plain_msa seqs md pm idx = Inr (seqs, md, pm, idx)"

subsection \<open>Auxiliary facts: sequencing, indexing and dictionaries\<close>

lemma bind_err_Inl [simp]: "bind_err (Inl e) f = Inl e"
  by (simp add: bind_err_def)

lemma bind_err_Inr [simp]: "bind_err (Inr a) f = f a"
  by (simp add: bind_err_def)

lemma bind_err_eq_Inr: "bind_err m f = Inr b \<longleftrightarrow> (\<exists>a. m = Inr a \<and> f a = Inr b)"
  by (cases m) simp_all

lemma index_Cons_0 [simp]: "index (x # xs) 0 = Inr x"
  by (simp add: index_def)

lemma index_Cons_Suc [simp]: "index (x # xs) (Suc n) = index xs n"
  by (simp add: index_def)

lemma index_Nil [simp]: "index [] n = Inl IndexError"
  by (simp add: index_def)

lemma update_fresh: "k \<notin> fst ` set al \<Longrightarrow> AList.update k v al = al @ [(k, v)]"
  by (induction al) auto

lemma update_present_keys:
  "map_of al k = Some d \<Longrightarrow> map fst (AList.update k d' al) = map fst al"
  by (induction al) (auto split: if_splits)

lemma update_present_field:
  "map_of al k = Some d \<Longrightarrow> f d' = f d \<Longrightarrow> map (\<lambda>p. f (snd p)) (AList.update k d' al) = map (\<lambda>p. f (snd p)) al"
  by (induction al) (auto split: if_splits)

lemma map_of_None_keys: "map_of al k = None \<longleftrightarrow> k \<notin> fst ` set al"
  by (simp add: map_of_eq_None_iff)

lemma split_ws_aux_no_space:
  "(\<forall>c\<in>set acc. \<not> isspace_char c) \<Longrightarrow>
   \<forall>w\<in>set (split_ws_aux acc s). \<forall>c\<in>set w. \<not> isspace_char c"
proof (induction s arbitrary: acc)
  case Nil
  then show ?case by simp
next
  case (Cons a s)
  show ?case
  proof (cases "isspace_char a")
    case True
    have "\<forall>w\<in>set (split_ws_aux [] s). \<forall>c\<in>set w. \<not> isspace_char c"
      using Cons.IH[of "[]"] by simp
    with True Cons.prems show ?thesis by simp
  next
    case False
    with Cons.prems have "\<forall>c\<in>set (a # acc). \<not> isspace_char c" by simp
    from Cons.IH[OF this] False show ?thesis by simp
  qed
qed

lemma split_ws_no_newline: "w \<in> set (split_ws s) \<Longrightarrow> newline \<notin> set w"
proof -
  assume w: "w \<in> set (split_ws s)"
  have "\<forall>w\<in>set (split_ws_aux [] s). \<forall>c\<in>set w. \<not> isspace_char c"
    by (rule split_ws_aux_no_space) simp
  with w have "\<forall>c\<in>set w. \<not> isspace_char c" by (simp add: split_ws_def)
  moreover have "isspace_char newline" by (simp add: isspace_char_def newline_def)
  ultimately show ?thesis by blast
qed

lemma remove_newline_split_ws:
  "remove_newline (split_ws s) = (if split_ws s = [] then Inl IndexError else Inr (split_ws s))"
  using split_ws_no_newline[of "last (split_ws s)" s]
  by (simp add: remove_newline_def Let_def)

lemma rstrip_newline_id:
  assumes "newline \<notin> set s"
  shows "rstrip_newline s = s"
proof (cases "s = []")
  case True
  then show ?thesis by (simp add: rstrip_newline_def)
next
  case False
  then have "hd (rev s) \<in> set s" by (simp add: hd_rev)
  with assms have "hd (rev s) \<noteq> newline" by auto
  then have "dropWhile (\<lambda>c. c = newline) (rev s) = rev s"
    by (simp add: dropWhile_eq_self_iff)
  then show ?thesis by (simp add: rstrip_newline_def)
qed

lemma remove_newline_eq:
  "line \<noteq> [] \<Longrightarrow> remove_newline line = Inr (butlast line @ [rstrip_newline (last line)])"
  by (simp add: remove_newline_def Let_def rstrip_newline_id)

lemma parse_data_Nil:
  "split_ws line = [] \<Longrightarrow> parse_stockholm_line_data line dna = Inl IndexError"
  by (simp add: parse_stockholm_line_data_def)

lemma parse_data_seen:
  "split_ws line = k # rest \<Longrightarrow> k \<in> fst ` set dna \<Longrightarrow>
   parse_stockholm_line_data line dna = Inl (StockholmFormatError (MultipleDataLines k))"
  by (simp add: parse_stockholm_line_data_def)

lemma parse_data_no_token:
  "split_ws line = [k] \<Longrightarrow> k \<notin> fst ` set dna \<Longrightarrow>
   parse_stockholm_line_data line dna = Inl IndexError"
  by (simp add: parse_stockholm_line_data_def)

lemma parse_data_new:
  "split_ws line = k # s # rest \<Longrightarrow> k \<notin> fst ` set dna \<Longrightarrow>
   parse_stockholm_line_data line dna =
     Inr (dna @ [(k, \<lparr>seq = s, metadata = [], pos_metadata = []\<rparr>)])"
  by (simp add: parse_stockholm_line_data_def update_fresh)

subsection \<open>Auxiliary facts: the data loop\<close>

lemma bind_err_eq_Inl: "bind_err m f = Inl e \<longleftrightarrow> m = Inl e \<or> (\<exists>a. m = Inr a \<and> f a = Inl e)"
  by (cases m) simp_all

lemma index_Inl: "index xs i = Inl e \<Longrightarrow> e = IndexError"
  by (simp add: index_def split: if_splits)

lemma remove_newline_Inl: "remove_newline line = Inl e \<Longrightarrow> e = IndexError"
  by (simp add: remove_newline_def Let_def split: if_splits)

lemma data_labels_Nil [simp]: "data_labels [] = []"
  by (simp add: data_labels_def)

lemma data_labels_Cons:
  "data_labels (l # fh) =
     (if is_data_line l then take 1 (split_ws l) @ data_labels fh else data_labels fh)"
  by (simp add: data_labels_def)

lemma data_labels_append: "data_labels (xs @ ys) = data_labels xs @ data_labels ys"
  by (simp add: data_labels_def)

lemma data_tokens_Nil [simp]: "data_tokens [] = []"
  by (simp add: data_tokens_def)

lemma data_tokens_Cons:
  "data_tokens (l # fh) =
     (if is_data_line l then take 1 (drop 1 (split_ws l)) @ data_tokens fh else data_tokens fh)"
  by (simp add: data_tokens_def)

lemma parse_data_Inr:
  assumes "parse_stockholm_line_data line dna = Inr dna'"
  shows "\<exists>k s rest. split_ws line = k # s # rest \<and> k \<notin> fst ` set dna \<and>
           dna' = dna @ [(k, \<lparr>seq = s, metadata = [], pos_metadata = []\<rparr>)]"
proof (cases "split_ws line")
  case Nil
  with assms show ?thesis by (simp add: parse_data_Nil)
next
  case (Cons k rest)
  show ?thesis
  proof (cases "k \<in> fst ` set dna")
    case True
    with Cons assms show ?thesis by (simp add: parse_data_seen)
  next
    case False
    show ?thesis
    proof (cases rest)
      case Nil
      with Cons False assms show ?thesis by (simp add: parse_data_no_token)
    next
      case (Cons s rest')
      with \<open>split_ws line = k # rest\<close> have sp: "split_ws line = k # s # rest'" by simp
      from parse_data_new[OF sp False] assms
      have "dna' = dna @ [(k, \<lparr>seq = s, metadata = [], pos_metadata = []\<rparr>)]" by simp
      with sp False show ?thesis by blast
    qed
  qed
qed

lemma parse_data_Inl:
  assumes "parse_stockholm_line_data line dna = Inl e"
  shows "e = IndexError \<or>
         (\<exists>k rest. split_ws line = k # rest \<and> k \<in> fst ` set dna \<and>
            e = StockholmFormatError (MultipleDataLines k))"
proof (cases "split_ws line")
  case Nil
  with assms show ?thesis by (simp add: parse_data_Nil)
next
  case (Cons k rest)
  show ?thesis
  proof (cases "k \<in> fst ` set dna")
    case True
    with Cons assms show ?thesis by (simp add: parse_data_seen)
  next
    case False
    show ?thesis
    proof (cases rest)
      case Nil
      with Cons False assms show ?thesis by (simp add: parse_data_no_token)
    next
      case (Cons s rest')
      with \<open>split_ws line = k # rest\<close> have sp: "split_ws line = k # s # rest'" by simp
      from parse_data_new[OF sp False] assms show ?thesis by simp
    qed
  qed
qed

lemma data_pass_append:
  "data_pass (xs @ ys) dna = bind_err (data_pass xs dna) (data_pass ys)"
proof (induction xs arbitrary: dna)
  case Nil
  show ?case by simp
next
  case (Cons l xs)
  show ?case
  proof (cases "parse_stockholm_line_data l dna")
    case (Inl e)
    then show ?thesis by (simp add: Cons.IH)
  next
    case (Inr d)
    then show ?thesis by (simp add: Cons.IH)
  qed
qed

lemma data_pass_Inr:
  "data_pass fh dna = Inr dna' \<Longrightarrow>
   map fst dna' = map fst dna @ data_labels fh \<and>
   map (\<lambda>p. seq (snd p)) dna' = map (\<lambda>p. seq (snd p)) dna @ data_tokens fh"
proof (induction fh arbitrary: dna)
  case Nil
  then show ?case by simp
next
  case (Cons l fh)
  show ?case
  proof (cases "is_data_line l")
    case False
    with Cons.prems have "data_pass fh dna = Inr dna'" by simp
    from Cons.IH[OF this] False show ?thesis
      by (simp add: data_labels_Cons data_tokens_Cons)
  next
    case True
    with Cons.prems obtain d1 where
      p: "parse_stockholm_line_data l dna = Inr d1" and r: "data_pass fh d1 = Inr dna'"
      by (auto simp: bind_err_eq_Inr)
    from parse_data_Inr[OF p] obtain k s rest where
      sp: "split_ws l = k # s # rest" and
      d1: "d1 = dna @ [(k, \<lparr>seq = s, metadata = [], pos_metadata = []\<rparr>)]"
      by blast
    from Cons.IH[OF r] d1 sp True show ?thesis
      by (simp add: data_labels_Cons data_tokens_Cons)
  qed
qed

lemma data_pass_distinct:
  "data_pass fh dna = Inr dna' \<Longrightarrow> distinct (map fst dna) \<Longrightarrow> distinct (map fst dna')"
proof (induction fh arbitrary: dna)
  case Nil
  then show ?case by simp
next
  case (Cons l fh)
  show ?case
  proof (cases "is_data_line l")
    case False
    with Cons.prems have "data_pass fh dna = Inr dna'" by simp
    from Cons.IH[OF this Cons.prems(2)] show ?thesis .
  next
    case True
    with Cons.prems obtain d1 where
      p: "parse_stockholm_line_data l dna = Inr d1" and r: "data_pass fh d1 = Inr dna'"
      by (auto simp: bind_err_eq_Inr)
    from parse_data_Inr[OF p] obtain k s rest where
      k: "k \<notin> fst ` set dna" and
      d1: "d1 = dna @ [(k, \<lparr>seq = s, metadata = [], pos_metadata = []\<rparr>)]"
      by blast
    from k d1 Cons.prems(2) have "distinct (map fst d1)" by simp
    from Cons.IH[OF r this] show ?thesis .
  qed
qed

lemma data_pass_Inl:
  "data_pass fh dna = Inl e \<Longrightarrow>
   e = IndexError \<or> (\<exists>k. e = StockholmFormatError (MultipleDataLines k))"
proof (induction fh arbitrary: dna)
  case Nil
  then show ?case by simp
next
  case (Cons l fh)
  show ?case
  proof (cases "is_data_line l")
    case False
    with Cons.prems have "data_pass fh dna = Inl e" by simp
    from Cons.IH[OF this] show ?thesis .
  next
    case True
    with Cons.prems have
      "parse_stockholm_line_data l dna = Inl e \<or>
       (\<exists>d1. parse_stockholm_line_data l dna = Inr d1 \<and> data_pass fh d1 = Inl e)"
      by (simp add: bind_err_eq_Inl)
    then show ?thesis
    proof
      assume "parse_stockholm_line_data l dna = Inl e"
      from parse_data_Inl[OF this] show ?thesis by blast
    next
      assume "\<exists>d1. parse_stockholm_line_data l dna = Inr d1 \<and> data_pass fh d1 = Inl e"
      then obtain d1 where "data_pass fh d1 = Inl e" by blast
      from Cons.IH[OF this] show ?thesis .
    qed
  qed
qed

subsection \<open>Auxiliary facts: markup fields\<close>

lemma remove_newline_single: "remove_newline [a] = Inr [rstrip_newline a]"
  by (simp add: remove_newline_eq)

lemma remove_newline_Cons2:
  "remove_newline (a # b # xs) = bind_err (remove_newline (b # xs)) (\<lambda>r. Inr (a # r))"
  by (simp add: remove_newline_eq)

lemma split_sep_aux_length: "length (split_sep_aux sep n acc s) \<le> Suc n"
  by (induction sep n acc s rule: split_sep_aux.induct) simp_all

lemma split_sep_aux_nonempty: "split_sep_aux sep n acc s \<noteq> []"
  by (induction sep n acc s rule: split_sep_aux.induct) simp_all

lemma split_sep_length: "length (split_sep sep n s) \<le> Suc n"
  by (simp add: split_sep_def split_sep_aux_length)

lemma split_sep_nonempty: "split_sep sep n s \<noteq> []"
  by (simp add: split_sep_def split_sep_aux_nonempty)

lemma parse_gf_fields:
  assumes "split_sep CHR '' '' 2 line = [m, k, v]"
  shows "parse_stockholm_line_gf line md =
     Inr (case map_of md k of
            Some old \<Rightarrow> AList.update k (old @ '' '' @ rstrip_newline v) md
          | None \<Rightarrow> AList.update k (rstrip_newline v) md)"
  using assms
  by (simp add: parse_stockholm_line_gf_def remove_newline_single remove_newline_Cons2
      numeral_2_eq_2 split: option.splits)

lemma parse_gf_short:
  assumes "length (split_sep CHR '' '' 2 line) < 3"
  shows "parse_stockholm_line_gf line md = Inl IndexError"
proof (cases "split_sep CHR '' '' 2 line")
  case Nil
  then show ?thesis by (simp add: split_sep_nonempty)
next
  case (Cons a r)
  show ?thesis
  proof (cases r)
    case Nil
    with Cons show ?thesis by (simp add: parse_stockholm_line_gf_def remove_newline_single)
  next
    case (Cons b r')
    with assms \<open>split_sep CHR '' '' 2 line = a # r\<close> have "split_sep CHR '' '' 2 line = [a, b]"
      by simp
    then show ?thesis
      by (simp add: parse_stockholm_line_gf_def remove_newline_single remove_newline_Cons2
          numeral_2_eq_2)
  qed
qed

lemma parse_gf_three:
  assumes "3 \<le> length (split_sep CHR '' '' 2 line)"
  shows "\<exists>m k v. split_sep CHR '' '' 2 line = [m, k, v]"
proof -
  have "length (split_sep CHR '' '' 2 line) \<le> 3"
    using split_sep_length[of "CHR '' ''" 2 line] by simp
  with assms have "length (split_sep CHR '' '' 2 line) = 3" by simp
  then show ?thesis by (auto simp: length_Suc_conv numeral_3_eq_3)
qed

lemma parse_gf_Inl:
  assumes "parse_stockholm_line_gf line md = Inl e"
  shows "e = IndexError"
proof (cases "length (split_sep CHR '' '' 2 line) < 3")
  case True
  from parse_gf_short[OF True] assms show ?thesis by simp
next
  case False
  then have "3 \<le> length (split_sep CHR '' '' 2 line)" by simp
  from parse_gf_three[OF this] obtain m k v where "split_sep CHR '' '' 2 line = [m, k, v]"
    by blast
  from parse_gf_fields[OF this] assms show ?thesis by simp
qed

lemma parse_gc_duplicate:
  "split_ws line = m # k # rest \<Longrightarrow> k \<in> fst ` set pm \<Longrightarrow>
   parse_stockholm_line_gc line pm = Inl (StockholmFormatError (DuplicateGC k))"
  using remove_newline_split_ws[of line]
  by (simp add: parse_stockholm_line_gc_def)

lemma parse_gc_fresh:
  "split_ws line = m # k # t # rest \<Longrightarrow> k \<notin> fst ` set pm \<Longrightarrow>
   parse_stockholm_line_gc line pm = Inr (pm @ [(k, list_of_str t)])"
  using remove_newline_split_ws[of line]
  by (simp add: parse_stockholm_line_gc_def numeral_2_eq_2 update_fresh)

lemma parse_gc_Inl:
  assumes "parse_stockholm_line_gc line pm = Inl e"
  shows "e = IndexError \<or> (\<exists>k. e = StockholmFormatError (DuplicateGC k))"
  using assms
  by (auto simp: parse_stockholm_line_gc_def bind_err_eq_Inl
      dest: index_Inl remove_newline_Inl split: if_splits)

subsection \<open>Auxiliary facts: per-sequence markup\<close>

lemma index_eq_Inl_iff: "index xs i = Inl e \<longleftrightarrow> \<not> i < length xs \<and> e = IndexError"
  by (auto simp: index_def)

lemma parse_gs_unknown:
  assumes "split_sep CHR '' '' 3 line = m # label # f # rest" and "label \<notin> fst ` set dna"
  shows "parse_stockholm_line_gs line dna = Inl (StockholmFormatError (NonexistentData label))"
proof -
  from assms(2) have none: "map_of dna label = None" by (simp add: map_of_None_keys)
  obtain r where r: "remove_newline (f # rest) = Inr r" "r \<noteq> []"
    by (simp add: remove_newline_eq)
  then obtain f' r' where "r = f' # r'" by (cases r) simp_all
  with r assms(1) none show ?thesis
    by (simp add: parse_stockholm_line_gs_def remove_newline_Cons2 numeral_2_eq_2)
qed

lemma parse_gs_noop:
  assumes "split_sep CHR '' '' 3 line = m # label # f # rest"
    and "map_of dna label = Some d" and "metadata d \<noteq> []"
  shows "parse_stockholm_line_gs line dna = Inr dna"
proof -
  obtain r where r: "remove_newline (f # rest) = Inr r" "r \<noteq> []"
    by (simp add: remove_newline_eq)
  then obtain f' r' where "r = f' # r'" by (cases r) simp_all
  with r assms show ?thesis
    by (simp add: parse_stockholm_line_gs_def remove_newline_Cons2 numeral_2_eq_2)
qed

lemma parse_gs_insert:
  assumes "split_sep CHR '' '' 3 line = [m, label, f, v]"
    and "map_of dna label = Some d" and "metadata d = []"
  shows "parse_stockholm_line_gs line dna =
     Inr (AList.update label (d\<lparr>metadata := [(f, rstrip_newline v)]\<rparr>) dna)"
  using assms
  by (simp add: parse_stockholm_line_gs_def remove_newline_Cons2 remove_newline_single
      numeral_2_eq_2 numeral_3_eq_3)

lemma parse_gs_Inl:
  assumes "parse_stockholm_line_gs line dna = Inl e"
  shows "e = IndexError \<or>
         (\<exists>k. e = StockholmFormatError (NonexistentData k) \<and> k \<notin> fst ` set dna)"
  using assms
  by (auto simp: parse_stockholm_line_gs_def bind_err_eq_Inl map_of_None_keys[symmetric]
      index_eq_Inl_iff dest: remove_newline_Inl split: option.splits if_splits)

lemma parse_gs_Inr:
  assumes "parse_stockholm_line_gs line dna = Inr dna'"
  shows "map fst dna' = map fst dna \<and>
         map (\<lambda>p. seq (snd p)) dna' = map (\<lambda>p. seq (snd p)) dna"
  using assms
  by (auto simp: parse_stockholm_line_gs_def bind_err_eq_Inr update_present_keys
      update_present_field[where f = seq] split: option.splits if_splits)

lemma parse_gr_unknown:
  assumes "split_ws line = m # label # f # rest" and "label \<notin> fst ` set dna"
  shows "parse_stockholm_line_gr line dna = Inl (StockholmFormatError (NonexistentData label))"
proof -
  from assms(2) have none: "map_of dna label = None" by (simp add: map_of_None_keys)
  with assms(1) remove_newline_split_ws[of line] show ?thesis
    by (simp add: parse_stockholm_line_gr_def numeral_2_eq_2)
qed

lemma parse_gr_Inl:
  assumes "parse_stockholm_line_gr line dna = Inl e"
  shows "e = IndexError \<or>
         (\<exists>k. e = StockholmFormatError (NonexistentData k) \<and> k \<notin> fst ` set dna) \<or>
         (\<exists>f k. e = StockholmFormatError (DuplicateGR f k))"
proof -
  from assms consider
      (fields) "remove_newline (split_ws line) = Inl e"
    | (name) fs :: "string list" where "index fs 1 = Inl e"
    | (feature) fs :: "string list" where "index fs 2 = Inl e"
    | (lookup) fs k f where
        "(case map_of dna k of
            Some d \<Rightarrow>
              if f \<in> fst ` set (pos_metadata d)
              then Inl (StockholmFormatError (DuplicateGR f k))
              else bind_err (index fs 3) (\<lambda>v.
                Inr (AList.update k
                  (d\<lparr>pos_metadata := AList.update f (list_of_str v) (pos_metadata d)\<rparr>) dna))
          | None \<Rightarrow> Inl (StockholmFormatError (NonexistentData k))) = Inl e"
    unfolding parse_stockholm_line_gr_def bind_err_eq_Inl
    by (elim disjE exE conjE) blast+
  then show ?thesis
  proof cases
    case fields
    then show ?thesis by (simp add: remove_newline_Inl)
  next
    case name
    then show ?thesis by (simp add: index_eq_Inl_iff)
  next
    case feature
    then show ?thesis by (simp add: index_eq_Inl_iff)
  next
    case lookup
    show ?thesis
    proof (cases "map_of dna k")
      case None
      with lookup show ?thesis by (auto simp: map_of_None_keys)
    next
      case (Some d)
      show ?thesis
      proof (cases "f \<in> fst ` set (pos_metadata d)")
        case True
        with Some lookup show ?thesis by auto
      next
        case False
        with Some lookup show ?thesis by (simp add: bind_err_eq_Inl index_eq_Inl_iff)
      qed
    qed
  qed
qed

lemma parse_gr_Inr:
  assumes "parse_stockholm_line_gr line dna = Inr dna'"
  shows "map fst dna' = map fst dna \<and>
         map (\<lambda>p. seq (snd p)) dna' = map (\<lambda>p. seq (snd p)) dna"
  using assms
  by (auto simp: parse_stockholm_line_gr_def bind_err_eq_Inr update_present_keys
      update_present_field[where f = seq] split: option.splits if_splits)

subsection \<open>Auxiliary facts: the markup loop and the constructor loop\<close>

lemma markup_pass_Inr:
  "markup_pass fh (md, dna, pm) = Inr (md', dna', pm') \<Longrightarrow>
   map fst dna' = map fst dna \<and>
   map (\<lambda>p. seq (snd p)) dna' = map (\<lambda>p. seq (snd p)) dna"
proof (induction fh arbitrary: md dna pm)
  case Nil
  then show ?case by simp
next
  case (Cons l fh)
  consider (gf) "startswith l ''#=GF''"
    | (gs) "\<not> startswith l ''#=GF''" "startswith l ''#=GS''"
    | (gr) "\<not> startswith l ''#=GF''" "\<not> startswith l ''#=GS''" "startswith l ''#=GR''"
    | (gc) "\<not> startswith l ''#=GF''" "\<not> startswith l ''#=GS''" "\<not> startswith l ''#=GR''"
           "startswith l ''#=GC''"
    | (other) "\<not> startswith l ''#=GF''" "\<not> startswith l ''#=GS''"
           "\<not> startswith l ''#=GR''" "\<not> startswith l ''#=GC''"
    by blast
  then show ?case
  proof cases
    case gf
    with Cons.prems obtain md1 where
      "markup_pass fh (md1, dna, pm) = Inr (md', dna', pm')"
      by (auto simp: bind_err_eq_Inr)
    from Cons.IH[OF this] show ?thesis .
  next
    case gs
    with Cons.prems obtain d1 where
      p: "parse_stockholm_line_gs l dna = Inr d1" and
      r: "markup_pass fh (md, d1, pm) = Inr (md', dna', pm')"
      by (auto simp: bind_err_eq_Inr)
    from Cons.IH[OF r] parse_gs_Inr[OF p] show ?thesis by simp
  next
    case gr
    with Cons.prems obtain d1 where
      p: "parse_stockholm_line_gr l dna = Inr d1" and
      r: "markup_pass fh (md, d1, pm) = Inr (md', dna', pm')"
      by (auto simp: bind_err_eq_Inr)
    from Cons.IH[OF r] parse_gr_Inr[OF p] show ?thesis by simp
  next
    case gc
    with Cons.prems obtain pm1 where
      "markup_pass fh (md, dna, pm1) = Inr (md', dna', pm')"
      by (auto simp: bind_err_eq_Inr)
    from Cons.IH[OF this] show ?thesis .
  next
    case other
    with Cons.prems have "markup_pass fh (md, dna, pm) = Inr (md', dna', pm')" by simp
    from Cons.IH[OF this] show ?thesis .
  qed
qed

lemma markup_pass_Inl:
  "markup_pass fh (md, dna, pm) = Inl e \<Longrightarrow>
   e = IndexError \<or>
   (\<exists>k. e = StockholmFormatError (NonexistentData k) \<and> k \<notin> fst ` set dna) \<or>
   (\<exists>f k. e = StockholmFormatError (DuplicateGR f k)) \<or>
   (\<exists>k. e = StockholmFormatError (DuplicateGC k))"
proof (induction fh arbitrary: md dna pm)
  case Nil
  then show ?case by simp
next
  case (Cons l fh)
  consider (gf) "startswith l ''#=GF''"
    | (gs) "\<not> startswith l ''#=GF''" "startswith l ''#=GS''"
    | (gr) "\<not> startswith l ''#=GF''" "\<not> startswith l ''#=GS''" "startswith l ''#=GR''"
    | (gc) "\<not> startswith l ''#=GF''" "\<not> startswith l ''#=GS''" "\<not> startswith l ''#=GR''"
           "startswith l ''#=GC''"
    | (other) "\<not> startswith l ''#=GF''" "\<not> startswith l ''#=GS''"
           "\<not> startswith l ''#=GR''" "\<not> startswith l ''#=GC''"
    by blast
  then show ?case
  proof cases
    case gf
    with Cons.prems consider
        "parse_stockholm_line_gf l md = Inl e"
      | md1 where "markup_pass fh (md1, dna, pm) = Inl e"
      by (auto simp: bind_err_eq_Inl)
    then show ?thesis
    proof cases
      case 1
      from parse_gf_Inl[OF this] show ?thesis by simp
    next
      case 2
      from Cons.IH[OF this] show ?thesis .
    qed
  next
    case gs
    with Cons.prems consider
        "parse_stockholm_line_gs l dna = Inl e"
      | d1 where "parse_stockholm_line_gs l dna = Inr d1" "markup_pass fh (md, d1, pm) = Inl e"
      by (auto simp: bind_err_eq_Inl)
    then show ?thesis
    proof cases
      case 1
      from parse_gs_Inl[OF this] show ?thesis by blast
    next
      case 2
      from parse_gs_Inr[OF 2(1)] have "fst ` set d1 = fst ` set dna"
        by (metis list.set_map)
      with Cons.IH[OF 2(2)] show ?thesis by simp
    qed
  next
    case gr
    with Cons.prems consider
        "parse_stockholm_line_gr l dna = Inl e"
      | d1 where "parse_stockholm_line_gr l dna = Inr d1" "markup_pass fh (md, d1, pm) = Inl e"
      by (auto simp: bind_err_eq_Inl)
    then show ?thesis
    proof cases
      case 1
      from parse_gr_Inl[OF this] show ?thesis by blast
    next
      case 2
      from parse_gr_Inr[OF 2(1)] have "fst ` set d1 = fst ` set dna"
        by (metis list.set_map)
      with Cons.IH[OF 2(2)] show ?thesis by simp
    qed
  next
    case gc
    with Cons.prems consider
        "parse_stockholm_line_gc l pm = Inl e"
      | pm1 where "markup_pass fh (md, dna, pm1) = Inl e"
      by (auto simp: bind_err_eq_Inl)
    then show ?thesis
    proof cases
      case 1
      from parse_gc_Inl[OF this] show ?thesis by blast
    next
      case 2
      from Cons.IH[OF this] show ?thesis .
    qed
  next
    case other
    with Cons.prems have "markup_pass fh (md, dna, pm) = Inl e" by simp
    from Cons.IH[OF this] show ?thesis .
  qed
qed

lemma markup_pass_append:
  "markup_pass (xs @ ys) st = bind_err (markup_pass xs st) (markup_pass ys)"
proof (induction xs arbitrary: st)
  case Nil
  show ?case by simp
next
  case (Cons l xs)
  obtain md dna pm where st: "st = (md, dna, pm)" by (cases st)
  show ?case
    unfolding st
    by (cases "parse_stockholm_line_gf l md"; cases "parse_stockholm_line_gs l dna";
        cases "parse_stockholm_line_gr l dna"; cases "parse_stockholm_line_gc l pm")
       (simp_all add: Cons.IH)
qed

lemma call_out_Inr: "call_out r = Inr a \<longleftrightarrow> r = Inr a"
  by (cases r) (simp_all add: call_out_def)

lemma call_out_Inl: "call_out r = Inl e \<Longrightarrow> \<exists>x. e = CollaboratorError x"
  by (cases r) (auto simp: call_out_def)

lemma assemble_Inr:
  "assemble constructor dna = Inr seqs \<Longrightarrow>
   list_all2 (\<lambda>p s. \<exists>m q. constructor (seq (snd p)) m q = Inr s) dna seqs"
proof (induction dna arbitrary: seqs)
  case Nil
  then show ?case by simp
next
  case (Cons p dna)
  obtain key d where p: "p = (key, d)" by (cases p)
  from Cons.prems obtain s ss where
    s: "constructor (seq d) (none_if_empty (metadata d)) (none_if_empty (pos_metadata d)) = Inr s"
    and ss: "assemble constructor dna = Inr ss" and seqs: "seqs = s # ss"
    unfolding p by (auto simp: bind_err_eq_Inr call_out_Inr)
  from Cons.IH[OF ss] s seqs p show ?case by auto
qed

lemma assemble_Inl:
  "assemble constructor dna = Inl e \<Longrightarrow> \<exists>x. e = CollaboratorError x"
proof (induction dna)
  case Nil
  then show ?case by simp
next
  case (Cons p dna)
  obtain key d where p: "p = (key, d)" by (cases p)
  from Cons.prems show ?case
    unfolding p by (auto simp: bind_err_eq_Inl dest: call_out_Inl Cons.IH)
qed

lemma assemble_Nil_iff: "assemble constructor dna = Inr [] \<longleftrightarrow> dna = []"
proof (cases dna)
  case Nil
  then show ?thesis by simp
next
  case (Cons p dna')
  obtain key d where p: "p = (key, d)" by (cases p)
  show ?thesis unfolding Cons p by (auto simp: bind_err_eq_Inr)
qed

subsection \<open>Auxiliary facts: the reader\<close>

lemma update_append_last:
  "k \<notin> fst ` set al \<Longrightarrow> AList.update k v (al @ [(k, w)]) = al @ [(k, v)]"
  by (induction al) auto

lemma map_of_append_last:
  "k \<notin> fst ` set al \<Longrightarrow> map_of (al @ [(k, w)]) k = Some w"
  by (induction al) auto

lemma markup_pass_gs_step:
  "startswith line ''#=GS'' \<Longrightarrow>
   markup_pass (line # fh) (md, dna, pm) =
     bind_err (parse_stockholm_line_gs line dna) (\<lambda>d. markup_pass fh (md, d, pm))"
  by (simp add: startswith_def)

lemma markup_pass_gr_step:
  "startswith line ''#=GR'' \<Longrightarrow>
   markup_pass (line # fh) (md, dna, pm) =
     bind_err (parse_stockholm_line_gr line dna) (\<lambda>d. markup_pass fh (md, d, pm))"
  by (simp add: startswith_def)

lemma markup_pass_gc_step:
  "startswith line ''#=GC'' \<Longrightarrow>
   markup_pass (line # fh) (md, dna, pm) =
     bind_err (parse_stockholm_line_gc line pm) (\<lambda>p. markup_pass fh (md, dna, p))"
  by (simp add: startswith_def)

lemma data_pass_no_data:
  "filter is_data_line fh = [] \<Longrightarrow> data_pass fh dna = Inr dna"
  by (induction fh) (simp_all split: if_splits)

lemma data_pass_length:
  "data_pass fh dna = Inr dna' \<Longrightarrow> length dna' = length dna + length (filter is_data_line fh)"
proof (induction fh arbitrary: dna)
  case Nil
  then show ?case by simp
next
  case (Cons l fh)
  show ?case
  proof (cases "is_data_line l")
    case False
    with Cons.prems have "data_pass fh dna = Inr dna'" by simp
    from Cons.IH[OF this] False show ?thesis by simp
  next
    case True
    with Cons.prems obtain d1 where
      p: "parse_stockholm_line_data l dna = Inr d1" and r: "data_pass fh d1 = Inr dna'"
      by (auto simp: bind_err_eq_Inr)
    from parse_data_Inr[OF p] have "length d1 = Suc (length dna)" by auto
    with Cons.IH[OF r] True show ?thesis by simp
  qed
qed

lemma data_pass_keys:
  assumes "data_pass fh [] = Inr dna"
  shows "fst ` set dna = set (data_labels fh)"
proof -
  from data_pass_Inr[OF assms] have "map fst dna = data_labels fh" by simp
  then show ?thesis by (metis list.set_map)
qed

lemma markup_pass_keys:
  assumes "markup_pass fh (md, dna, pm) = Inr (md', dna', pm')"
  shows "fst ` set dna' = fst ` set dna"
proof -
  from markup_pass_Inr[OF assms] have "map fst dna' = map fst dna" by simp
  then show ?thesis by (metis list.set_map)
qed

lemma markup_pass_gf_step:
  "startswith line ''#=GF'' \<Longrightarrow>
   markup_pass (line # fh) (md, dna, pm) =
     bind_err (parse_stockholm_line_gf line md) (\<lambda>md'. markup_pass fh (md', dna, pm))"
  by simp

lemma parse_gf_other_key:
  assumes "parse_stockholm_line_gf line md = Inr md'"
    and "\<forall>m v. split_sep CHR '' '' 2 line \<noteq> [m, key, v]"
  shows "map_of md' key = map_of md key"
proof -
  have "\<not> length (split_sep CHR '' '' 2 line) < 3"
  proof
    assume "length (split_sep CHR '' '' 2 line) < 3"
    from parse_gf_short[OF this, of md] assms(1) show False by simp
  qed
  then have "3 \<le> length (split_sep CHR '' '' 2 line)" by simp
  from parse_gf_three[OF this] obtain m k v where sp: "split_sep CHR '' '' 2 line = [m, k, v]"
    by blast
  with assms(2) have ne: "k \<noteq> key" by auto
  from parse_gf_fields[OF sp, of md] assms(1) have
    "md' = (case map_of md k of
              Some old \<Rightarrow> AList.update k (old @ '' '' @ rstrip_newline v) md
            | None \<Rightarrow> AList.update k (rstrip_newline v) md)" by simp
  with ne show ?thesis by (simp add: AList.update_conv' split: option.splits)
qed

lemma markup_pass_other_key:
  "markup_pass fh (md, dna, pm) = Inr (md', dna', pm') \<Longrightarrow>
   \<forall>l\<in>set fh. startswith l ''#=GF'' \<longrightarrow> (\<forall>m v. split_sep CHR '' '' 2 l \<noteq> [m, key, v]) \<Longrightarrow>
   map_of md' key = map_of md key"
proof (induction fh arbitrary: md dna pm)
  case Nil
  then show ?case by simp
next
  case (Cons l fh)
  from Cons.prems(2) have tl:
    "\<forall>l\<in>set fh. startswith l ''#=GF'' \<longrightarrow> (\<forall>m v. split_sep CHR '' '' 2 l \<noteq> [m, key, v])"
    by simp
  consider (gf) "startswith l ''#=GF''"
    | (gs) "\<not> startswith l ''#=GF''" "startswith l ''#=GS''"
    | (gr) "\<not> startswith l ''#=GF''" "\<not> startswith l ''#=GS''" "startswith l ''#=GR''"
    | (gc) "\<not> startswith l ''#=GF''" "\<not> startswith l ''#=GS''" "\<not> startswith l ''#=GR''"
           "startswith l ''#=GC''"
    | (other) "\<not> startswith l ''#=GF''" "\<not> startswith l ''#=GS''"
           "\<not> startswith l ''#=GR''" "\<not> startswith l ''#=GC''"
    by blast
  then show ?case
  proof cases
    case gf
    with Cons.prems(1) obtain md1 where
      p: "parse_stockholm_line_gf l md = Inr md1" and
      r: "markup_pass fh (md1, dna, pm) = Inr (md', dna', pm')"
      by (auto simp: bind_err_eq_Inr)
    from Cons.prems(2) gf have "\<forall>m v. split_sep CHR '' '' 2 l \<noteq> [m, key, v]" by simp
    from parse_gf_other_key[OF p this] Cons.IH[OF r tl] show ?thesis by simp
  next
    case gs
    with Cons.prems(1) obtain d1 where
      "markup_pass fh (md, d1, pm) = Inr (md', dna', pm')"
      by (auto simp: bind_err_eq_Inr)
    from Cons.IH[OF this tl] show ?thesis .
  next
    case gr
    with Cons.prems(1) obtain d1 where
      "markup_pass fh (md, d1, pm) = Inr (md', dna', pm')"
      by (auto simp: bind_err_eq_Inr)
    from Cons.IH[OF this tl] show ?thesis .
  next
    case gc
    with Cons.prems(1) obtain pm1 where
      "markup_pass fh (md, dna, pm1) = Inr (md', dna', pm')"
      by (auto simp: bind_err_eq_Inr)
    from Cons.IH[OF this tl] show ?thesis .
  next
    case other
    with Cons.prems(1) have "markup_pass fh (md, dna, pm) = Inr (md', dna', pm')" by simp
    from Cons.IH[OF this tl] show ?thesis .
  qed
qed

subsection \<open>Theorems\<close>

text \<open>
  C9. The sniffer answers true exactly when the stream has a first line whose first 15
  characters are the signature; on the empty stream and on any other first line it
  answers false. It takes at most the first line off the stream.
\<close>

theorem sniffer_signature:
  "(fst (fst (stockholm_sniffer fh)) \<longleftrightarrow>
      (\<exists>line rest. fh = line # rest \<and> take 15 line = ''# STOCKHOLM 1.0''))
   \<and> snd (fst (stockholm_sniffer fh)) = []
   \<and> snd (stockholm_sniffer fh) = drop 1 fh"
  by (cases fh) (simp_all add: stockholm_sniffer_def)

text \<open>
  C1. A \<open>#=GS\<close> or \<open>#=GR\<close> line with at least three fields whose sequence label is
  on no data line of the stream makes the reader fail with ``Markup line references
  nonexistent data'' for that label, provided the data lines and the markup lines before
  it raise nothing. A label that is on a data line anywhere in the stream, before or
  after the markup line, is never reported as nonexistent: all data lines are read
  before the first markup line is looked at.
\<close>

theorem unknown_label_markup_fails:
  assumes "data_pass fh [] = Inr dna"
    and "fh = pre @ line # post"
    and "markup_pass pre ([], dna, []) = Inr st"
    and "(startswith line ''#=GS'' \<and> split_sep CHR '' '' 3 line = m # label # f # rest) \<or>
         (startswith line ''#=GR'' \<and> split_ws line = m # label # f # rest)"
  shows "(label \<notin> set (data_labels fh) \<longrightarrow>
            stockholm_to_tabular_msa constructor tabular_msa fh =
              Inl (StockholmFormatError (NonexistentData label))) \<and>
         (label \<in> set (data_labels fh) \<longrightarrow>
            stockholm_to_tabular_msa constructor tabular_msa fh \<noteq>
              Inl (StockholmFormatError (NonexistentData label)))"
proof (intro conjI impI)
  assume unknown: "label \<notin> set (data_labels fh)"
  obtain md1 dna1 pm1 where st: "st = (md1, dna1, pm1)" by (cases st)
  from assms(3) have "fst ` set dna1 = fst ` set dna"
    unfolding st by (rule markup_pass_keys)
  with data_pass_keys[OF assms(1)] unknown have fresh: "label \<notin> fst ` set dna1" by simp
  from assms(4) have
    "markup_pass (line # post) (md1, dna1, pm1) =
       Inl (StockholmFormatError (NonexistentData label))"
  proof
    assume "startswith line ''#=GS'' \<and> split_sep CHR '' '' 3 line = m # label # f # rest"
    then have gs: "startswith line ''#=GS''"
      and sp: "split_sep CHR '' '' 3 line = m # label # f # rest" by simp_all
    show ?thesis
      unfolding markup_pass_gs_step[OF gs] parse_gs_unknown[OF sp fresh] by simp
  next
    assume "startswith line ''#=GR'' \<and> split_ws line = m # label # f # rest"
    then have gr: "startswith line ''#=GR''"
      and sp: "split_ws line = m # label # f # rest" by simp_all
    show ?thesis
      unfolding markup_pass_gr_step[OF gr] parse_gr_unknown[OF sp fresh] by simp
  qed
  with assms(3) have
    "markup_pass fh ([], dna, []) = Inl (StockholmFormatError (NonexistentData label))"
    unfolding assms(2) st by (simp add: markup_pass_append)
  with assms(1) show
    "stockholm_to_tabular_msa constructor tabular_msa fh =
       Inl (StockholmFormatError (NonexistentData label))"
    by (simp add: stockholm_to_tabular_msa_def)
next
  assume known: "label \<in> set (data_labels fh)"
  show "stockholm_to_tabular_msa constructor tabular_msa fh \<noteq>
          Inl (StockholmFormatError (NonexistentData label))"
  proof
    assume fails: "stockholm_to_tabular_msa constructor tabular_msa fh =
          Inl (StockholmFormatError (NonexistentData label))"
    show False
    proof (cases "markup_pass fh ([], dna, [])")
      case (Inl e)
      with fails assms(1) have "e = StockholmFormatError (NonexistentData label)"
        by (simp add: stockholm_to_tabular_msa_def)
      with markup_pass_Inl[OF Inl] have "label \<notin> fst ` set dna" by simp
      with data_pass_keys[OF assms(1)] known show False by simp
    next
      case (Inr st2)
      obtain md2 dna2 pm2 where st2: "st2 = (md2, dna2, pm2)" by (cases st2)
      show False
      proof (cases "assemble constructor dna2")
        case (Inl e)
        from assemble_Inl[OF Inl] Inl fails assms(1) Inr st2 show False
          by (auto simp: stockholm_to_tabular_msa_def)
      next
        case (Inr seqs)
        with fails assms(1) \<open>markup_pass fh ([], dna, []) = Inr st2\<close> st2 show False
          by (auto simp: stockholm_to_tabular_msa_def split: if_splits dest: call_out_Inl)
      qed
    qed
  qed
qed

text \<open>
  C1, the claim as stated fails: a \<open>#=GS\<close> and a \<open>#=GR\<close> line that come before the data
  line of their label are accepted, and their values reach the constructor.
\<close>

theorem markup_before_data_counterexample:
  "stockholm_to_tabular_msa plain_constructor plain_msa
     [''#=GS seq1 AC x\<newline>'', ''#=GR seq1 SS .<>.\<newline>'', ''seq1 ACGT\<newline>''] =
   Inr ([(''ACGT'', Some [(''AC'', ''x'')], Some [(''SS'', [''.'', ''<'', ''>'', ''.''])])],
        [], None, [''seq1''])"
  by code_simp

text \<open>
  C1, the theorem at two streams: an unknown label, and a label whose data line comes
  after the markup line.
\<close>

theorem unknown_label_markup_fails_witness:
  "data_pass [''seq1 ACGT\<newline>'', ''#=GS seq2 AC x\<newline>''] [] =
     Inr [(''seq1'', \<lparr>seq = ''ACGT'', metadata = [], pos_metadata = []\<rparr>)]
   \<and> ''seq2'' \<notin> set (data_labels [''seq1 ACGT\<newline>'', ''#=GS seq2 AC x\<newline>''])
   \<and> stockholm_to_tabular_msa plain_constructor plain_msa
         [''seq1 ACGT\<newline>'', ''#=GS seq2 AC x\<newline>''] =
       Inl (StockholmFormatError (NonexistentData ''seq2''))
   \<and> ''seq1'' \<in> set (data_labels [''#=GR seq1 SS ....\<newline>'', ''seq1 ACGT\<newline>''])
   \<and> stockholm_to_tabular_msa plain_constructor plain_msa
         [''#=GR seq1 SS ....\<newline>'', ''seq1 ACGT\<newline>''] \<noteq>
       Inl (StockholmFormatError (NonexistentData ''seq1''))"
proof -
  let ?dna = "[(''seq1'', \<lparr>seq = ''ACGT'', metadata = [], pos_metadata = []\<rparr>)]"
  let ?fh1 = "[''seq1 ACGT\<newline>'', ''#=GS seq2 AC x\<newline>'']"
  let ?fh2 = "[''#=GR seq1 SS ....\<newline>'', ''seq1 ACGT\<newline>'']"
  have a1: "data_pass ?fh1 [] = Inr ?dna" by code_simp
  have a2: "?fh1 = [''seq1 ACGT\<newline>''] @ ''#=GS seq2 AC x\<newline>'' # []" by simp
  have a3: "markup_pass [''seq1 ACGT\<newline>''] ([], ?dna, []) = Inr ([], ?dna, [])"
    by code_simp
  have a4: "(startswith ''#=GS seq2 AC x\<newline>'' ''#=GS'' \<and>
             split_sep CHR '' '' 3 ''#=GS seq2 AC x\<newline>'' =
               ''#=GS'' # ''seq2'' # ''AC'' # [''x\<newline>'']) \<or>
            (startswith ''#=GS seq2 AC x\<newline>'' ''#=GR'' \<and>
             split_ws ''#=GS seq2 AC x\<newline>'' =
               ''#=GS'' # ''seq2'' # ''AC'' # [''x\<newline>''])"
    by code_simp
  have a5: "''seq2'' \<notin> set (data_labels ?fh1)" by code_simp
  have b1: "data_pass ?fh2 [] = Inr ?dna" by code_simp
  have b2: "?fh2 = [] @ ''#=GR seq1 SS ....\<newline>'' # [''seq1 ACGT\<newline>'']" by simp
  have b3: "markup_pass [] ([], ?dna, []) = Inr ([], ?dna, [])" by simp
  have b4: "(startswith ''#=GR seq1 SS ....\<newline>'' ''#=GS'' \<and>
             split_sep CHR '' '' 3 ''#=GR seq1 SS ....\<newline>'' =
               ''#=GR'' # ''seq1'' # ''SS'' # [''....'']) \<or>
            (startswith ''#=GR seq1 SS ....\<newline>'' ''#=GR'' \<and>
             split_ws ''#=GR seq1 SS ....\<newline>'' =
               ''#=GR'' # ''seq1'' # ''SS'' # [''....''])"
    by code_simp
  have b5: "''seq1'' \<in> set (data_labels ?fh2)" by code_simp
  from unknown_label_markup_fails[OF a1 a2 a3 a4, of plain_constructor plain_msa] a5
  have r1: "stockholm_to_tabular_msa plain_constructor plain_msa ?fh1 =
       Inl (StockholmFormatError (NonexistentData ''seq2''))" by blast
  from unknown_label_markup_fails[OF b1 b2 b3 b4, of plain_constructor plain_msa] b5
  have r2: "stockholm_to_tabular_msa plain_constructor plain_msa ?fh2 \<noteq>
       Inl (StockholmFormatError (NonexistentData ''seq1''))" by blast
  from a1 a5 r1 b5 r2 show ?thesis by blast
qed

text \<open>
  C2. For a \<open>#=GS\<close> line whose label names an existing record and that has a feature
  field: when the record's metadata dictionary is empty and the line has a value field,
  the pair of feature and value (without the trailing newline) becomes the content of
  that dictionary; when the dictionary already has content, the line changes nothing and
  raises nothing.
\<close>

theorem gs_writes_only_into_empty_metadata:
  assumes "split_sep CHR '' '' 3 line = m # label # feature # rest"
    and "map_of dna_data label = Some d"
  shows "(metadata d = [] \<and> rest = [v] \<longrightarrow>
            parse_stockholm_line_gs line dna_data =
              Inr (AList.update label (d\<lparr>metadata := [(feature, rstrip_newline v)]\<rparr>) dna_data)) \<and>
         (metadata d \<noteq> [] \<longrightarrow> parse_stockholm_line_gs line dna_data = Inr dna_data)"
proof (intro conjI impI)
  assume "metadata d = [] \<and> rest = [v]"
  with assms(1) have sp: "split_sep CHR '' '' 3 line = [m, label, feature, v]"
    and empty: "metadata d = []" by simp_all
  from parse_gs_insert[OF sp assms(2) empty]
  show "parse_stockholm_line_gs line dna_data =
          Inr (AList.update label (d\<lparr>metadata := [(feature, rstrip_newline v)]\<rparr>) dna_data)" .
next
  assume "metadata d \<noteq> []"
  from parse_gs_noop[OF assms this]
  show "parse_stockholm_line_gs line dna_data = Inr dna_data" .
qed

text \<open>C2, the theorem at a first and a second \<open>#=GS\<close> line of one sequence.\<close>

theorem gs_writes_only_into_empty_metadata_witness:
  "parse_stockholm_line_gs ''#=GS seq1 AC x y\<newline>''
     [(''seq1'', \<lparr>seq = ''ACGT'', metadata = [], pos_metadata = []\<rparr>)] =
   Inr [(''seq1'', \<lparr>seq = ''ACGT'', metadata = [(''AC'', ''x y'')], pos_metadata = []\<rparr>)]
   \<and> parse_stockholm_line_gs ''#=GS seq1 DR z\<newline>''
     [(''seq1'', \<lparr>seq = ''ACGT'', metadata = [(''AC'', ''x y'')], pos_metadata = []\<rparr>)] =
   Inr [(''seq1'', \<lparr>seq = ''ACGT'', metadata = [(''AC'', ''x y'')], pos_metadata = []\<rparr>)]"
proof -
  let ?d0 = "\<lparr>seq = ''ACGT'', metadata = [], pos_metadata = []\<rparr>"
  let ?d1 = "\<lparr>seq = ''ACGT'', metadata = [(''AC'', ''x y'')], pos_metadata = []\<rparr>"
  have a1: "split_sep CHR '' '' 3 ''#=GS seq1 AC x y\<newline>'' =
              ''#=GS'' # ''seq1'' # ''AC'' # [''x y\<newline>'']" by code_simp
  have a2: "map_of [(''seq1'', ?d0)] ''seq1'' = Some ?d0" by simp
  have a3: "metadata ?d0 = [] \<and> [''x y\<newline>''] = [''x y\<newline>'']" by simp
  have a4: "rstrip_newline ''x y\<newline>'' = ''x y''" by code_simp
  have b1: "split_sep CHR '' '' 3 ''#=GS seq1 DR z\<newline>'' =
              ''#=GS'' # ''seq1'' # ''DR'' # [''z\<newline>'']" by code_simp
  have b2: "map_of [(''seq1'', ?d1)] ''seq1'' = Some ?d1" by simp
  have b3: "metadata ?d1 \<noteq> []" by simp
  from gs_writes_only_into_empty_metadata[OF a1 a2, of "''x y\<newline>''"] a3
  have "parse_stockholm_line_gs ''#=GS seq1 AC x y\<newline>'' [(''seq1'', ?d0)] =
          Inr (AList.update ''seq1''
                 (?d0\<lparr>metadata := [(''AC'', rstrip_newline ''x y\<newline>'')]\<rparr>)
                 [(''seq1'', ?d0)])" by blast
  then have r1: "parse_stockholm_line_gs ''#=GS seq1 AC x y\<newline>'' [(''seq1'', ?d0)] =
          Inr [(''seq1'', ?d1)]" by (simp add: a4)
  from gs_writes_only_into_empty_metadata[OF b1 b2] b3
  have r2: "parse_stockholm_line_gs ''#=GS seq1 DR z\<newline>'' [(''seq1'', ?d1)] =
          Inr [(''seq1'', ?d1)]" by blast
  from r1 r2 show ?thesis by blast
qed

text \<open>
  C3. The \<open>#=GF\<close> parser cuts the line at its first two space characters. A line with
  fewer than three such fields makes it fail, and the failure is Python's \<open>IndexError\<close>;
  the module raises no error of its own for a malformed markup line. A line with three
  such fields is accepted.
\<close>

theorem gf_needs_three_space_fields:
  "(length (split_sep CHR '' '' 2 line) < 3 \<longrightarrow>
      parse_stockholm_line_gf line md = Inl IndexError) \<and>
   (3 \<le> length (split_sep CHR '' '' 2 line) \<longrightarrow>
      (\<exists>md'. parse_stockholm_line_gf line md = Inr md'))"
proof (intro conjI impI)
  assume "length (split_sep CHR '' '' 2 line) < 3"
  then show "parse_stockholm_line_gf line md = Inl IndexError" by (rule parse_gf_short)
next
  assume "3 \<le> length (split_sep CHR '' '' 2 line)"
  from parse_gf_three[OF this] obtain m k v where "split_sep CHR '' '' 2 line = [m, k, v]"
    by blast
  from parse_gf_fields[OF this, of md]
  show "\<exists>md'. parse_stockholm_line_gf line md = Inr md'" by blast
qed

text \<open>
  C3, the claim as stated fails: \<open>#=GF RA\<close> followed by one space has two
  whitespace-delimited fields and is accepted with the empty string as its value; and
  where the parser does fail, on \<open>#=GF\<close> alone, the failure is \<open>IndexError\<close>, not a
  \<open>StockholmFormatError\<close>.
\<close>

theorem gf_few_fields_counterexample:
  "length (split_ws ''#=GF RA \<newline>'') < 3
   \<and> parse_stockholm_line_gf ''#=GF RA \<newline>'' [] = Inr [(''RA'', '''')]
   \<and> length (split_ws ''#=GF\<newline>'') < 3
   \<and> parse_stockholm_line_gf ''#=GF\<newline>'' [] = Inl IndexError"
  by code_simp

text \<open>C3, the theorem at a line with two fields and at a line with three.\<close>

theorem gf_needs_three_space_fields_witness:
  "length (split_sep CHR '' '' 2 ''#=GF RA\<newline>'') < 3
   \<and> parse_stockholm_line_gf ''#=GF RA\<newline>'' [] = Inl IndexError
   \<and> 3 \<le> length (split_sep CHR '' '' 2 ''#=GF RA x\<newline>'')
   \<and> (\<exists>md'. parse_stockholm_line_gf ''#=GF RA x\<newline>'' [] = Inr md')"
proof -
  have a: "length (split_sep CHR '' '' 2 ''#=GF RA\<newline>'') < 3" by code_simp
  have b: "3 \<le> length (split_sep CHR '' '' 2 ''#=GF RA x\<newline>'')" by code_simp
  from gf_needs_three_space_fields[of "''#=GF RA\<newline>''" "[]"] a
  have r1: "parse_stockholm_line_gf ''#=GF RA\<newline>'' [] = Inl IndexError" by blast
  from gf_needs_three_space_fields[of "''#=GF RA x\<newline>''" "[]"] b
  have r2: "\<exists>md'. parse_stockholm_line_gf ''#=GF RA x\<newline>'' [] = Inr md'" by blast
  from a b r1 r2 show ?thesis by blast
qed

text \<open>
  C5. Of two \<open>#=GF\<close> lines with the same feature key and the values \<open>a\<close> and \<open>b\<close> (the
  third field of each line, without its trailing newline): a key seen for the first time
  maps to its value unmodified; on any metadata mapping that already holds the key with
  a value \<open>old\<close>, wherever the key stands in it, the line with \<open>b\<close> makes the key map to
  \<open>old\<close>, one space, \<open>b\<close> and leaves the rest as it was; and in the markup loop, with any
  lines between the two that carry no \<open>#=GF\<close> line of that key, the key maps to \<open>a\<close> after
  the first line and to \<open>a\<close>, one space, \<open>b\<close> after the second.
\<close>

theorem gf_same_key_concatenates:
  assumes "split_sep CHR '' '' 2 line1 = [m1, key, a]"
    and "split_sep CHR '' '' 2 line2 = [m2, key, b]"
  shows
    "(key \<notin> fst ` set md \<longrightarrow>
        parse_stockholm_line_gf line1 md = Inr (md @ [(key, rstrip_newline a)]) \<and>
        bind_err (parse_stockholm_line_gf line1 md) (parse_stockholm_line_gf line2) =
          Inr (md @ [(key, rstrip_newline a @ '' '' @ rstrip_newline b)])) \<and>
     (\<forall>old. map_of md key = Some old \<longrightarrow>
        parse_stockholm_line_gf line2 md =
          Inr (AList.update key (old @ '' '' @ rstrip_newline b) md) \<and>
        map_of (AList.update key (old @ '' '' @ rstrip_newline b) md) key =
          Some (old @ '' '' @ rstrip_newline b)) \<and>
     (key \<notin> fst ` set md \<and> startswith line1 ''#=GF'' \<and> startswith line2 ''#=GF'' \<and>
      (\<forall>l\<in>set mid. startswith l ''#=GF'' \<longrightarrow>
         (\<forall>m v. split_sep CHR '' '' 2 l \<noteq> [m, key, v])) \<and>
      markup_pass (line1 # mid) (md, dna_data, pm) = Inr (md1, dna1, pm1) \<longrightarrow>
        map_of md1 key = Some (rstrip_newline a) \<and>
        markup_pass (line1 # mid @ [line2]) (md, dna_data, pm) =
          Inr (AList.update key (rstrip_newline a @ '' '' @ rstrip_newline b) md1, dna1, pm1) \<and>
        map_of (AList.update key (rstrip_newline a @ '' '' @ rstrip_newline b) md1) key =
          Some (rstrip_newline a @ '' '' @ rstrip_newline b))"
proof -
  have held: "parse_stockholm_line_gf line2 mdx =
                Inr (AList.update key (old @ '' '' @ rstrip_newline b) mdx)"
    if "map_of mdx key = Some old" for mdx old
    using parse_gf_fields[OF assms(2), of mdx] that by (simp only: option.case)
  have first: "parse_stockholm_line_gf line1 md = Inr (md @ [(key, rstrip_newline a)])"
    if fresh: "key \<notin> fst ` set md"
  proof -
    from fresh have "map_of md key = None" by (simp add: map_of_None_keys)
    with parse_gf_fields[OF assms(1), of md]
    have "parse_stockholm_line_gf line1 md = Inr (AList.update key (rstrip_newline a) md)"
      by (simp only: option.case)
    then show ?thesis unfolding update_fresh[OF fresh] .
  qed
  have looked: "map_of (AList.update key v mdx) key = Some v" for v mdx
    by (simp add: AList.update_conv')
  have A: "parse_stockholm_line_gf line1 md = Inr (md @ [(key, rstrip_newline a)]) \<and>
        bind_err (parse_stockholm_line_gf line1 md) (parse_stockholm_line_gf line2) =
          Inr (md @ [(key, rstrip_newline a @ '' '' @ rstrip_newline b)])"
    if fresh: "key \<notin> fst ` set md"
  proof -
    have "map_of (md @ [(key, rstrip_newline a)]) key = Some (rstrip_newline a)"
      using fresh by (rule map_of_append_last)
    from held[OF this] have
      "parse_stockholm_line_gf line2 (md @ [(key, rstrip_newline a)]) =
         Inr (md @ [(key, rstrip_newline a @ '' '' @ rstrip_newline b)])"
      unfolding update_append_last[OF fresh] .
    with first[OF fresh] show ?thesis by simp
  qed
  have C: "map_of md1 key = Some (rstrip_newline a) \<and>
        markup_pass (line1 # mid @ [line2]) (md, dna_data, pm) =
          Inr (AList.update key (rstrip_newline a @ '' '' @ rstrip_newline b) md1, dna1, pm1) \<and>
        map_of (AList.update key (rstrip_newline a @ '' '' @ rstrip_newline b) md1) key =
          Some (rstrip_newline a @ '' '' @ rstrip_newline b)"
    if fresh: "key \<notin> fst ` set md" and g1: "startswith line1 ''#=GF''"
      and g2: "startswith line2 ''#=GF''"
      and between: "\<forall>l\<in>set mid. startswith l ''#=GF'' \<longrightarrow>
         (\<forall>m v. split_sep CHR '' '' 2 l \<noteq> [m, key, v])"
      and run: "markup_pass (line1 # mid) (md, dna_data, pm) = Inr (md1, dna1, pm1)"
  proof -
    from run have "markup_pass mid (md @ [(key, rstrip_newline a)], dna_data, pm) =
        Inr (md1, dna1, pm1)"
      unfolding markup_pass_gf_step[OF g1] first[OF fresh] by simp
    from markup_pass_other_key[OF this between] map_of_append_last[OF fresh]
    have m1: "map_of md1 key = Some (rstrip_newline a)" by simp
    have "markup_pass [line2] (md1, dna1, pm1) =
        Inr (AList.update key (rstrip_newline a @ '' '' @ rstrip_newline b) md1, dna1, pm1)"
      unfolding markup_pass_gf_step[OF g2] held[OF m1] by simp
    moreover have "markup_pass (line1 # mid @ [line2]) (md, dna_data, pm) =
        bind_err (markup_pass (line1 # mid) (md, dna_data, pm)) (markup_pass [line2])"
      using markup_pass_append[of "line1 # mid" "[line2]" "(md, dna_data, pm)"]
      by (simp only: append_Cons)
    ultimately have r2: "markup_pass (line1 # mid @ [line2]) (md, dna_data, pm) =
        Inr (AList.update key (rstrip_newline a @ '' '' @ rstrip_newline b) md1, dna1, pm1)"
      unfolding run by simp
    from m1 r2 looked[of "rstrip_newline a @ '' '' @ rstrip_newline b" md1]
    show ?thesis by (intro conjI)
  qed
  show ?thesis
  proof (intro conjI impI allI)
    assume "key \<notin> fst ` set md"
    from A[OF this] show "parse_stockholm_line_gf line1 md = Inr (md @ [(key, rstrip_newline a)])"
      by (rule conjunct1)
  next
    assume "key \<notin> fst ` set md"
    from A[OF this]
    show "bind_err (parse_stockholm_line_gf line1 md) (parse_stockholm_line_gf line2) =
          Inr (md @ [(key, rstrip_newline a @ '' '' @ rstrip_newline b)])"
      by (rule conjunct2)
  next
    fix old assume "map_of md key = Some old"
    from held[OF this] show "parse_stockholm_line_gf line2 md =
          Inr (AList.update key (old @ '' '' @ rstrip_newline b) md)" .
  next
    fix old
    show "map_of (AList.update key (old @ '' '' @ rstrip_newline b) md) key =
          Some (old @ '' '' @ rstrip_newline b)" by (rule looked)
  next
    assume h: "key \<notin> fst ` set md \<and> startswith line1 ''#=GF'' \<and> startswith line2 ''#=GF'' \<and>
      (\<forall>l\<in>set mid. startswith l ''#=GF'' \<longrightarrow>
         (\<forall>m v. split_sep CHR '' '' 2 l \<noteq> [m, key, v])) \<and>
      markup_pass (line1 # mid) (md, dna_data, pm) = Inr (md1, dna1, pm1)"
    then have "key \<notin> fst ` set md" and "startswith line1 ''#=GF''"
      and "startswith line2 ''#=GF''"
      and "\<forall>l\<in>set mid. startswith l ''#=GF'' \<longrightarrow>
         (\<forall>m v. split_sep CHR '' '' 2 l \<noteq> [m, key, v])"
      and "markup_pass (line1 # mid) (md, dna_data, pm) = Inr (md1, dna1, pm1)"
      by blast+
    then have c: "map_of md1 key = Some (rstrip_newline a) \<and>
        markup_pass (line1 # mid @ [line2]) (md, dna_data, pm) =
          Inr (AList.update key (rstrip_newline a @ '' '' @ rstrip_newline b) md1, dna1, pm1) \<and>
        map_of (AList.update key (rstrip_newline a @ '' '' @ rstrip_newline b) md1) key =
          Some (rstrip_newline a @ '' '' @ rstrip_newline b)"
      by (rule C)
    from c show "map_of md1 key = Some (rstrip_newline a)" by (rule conjunct1)
    from c show "markup_pass (line1 # mid @ [line2]) (md, dna_data, pm) =
          Inr (AList.update key (rstrip_newline a @ '' '' @ rstrip_newline b) md1, dna1, pm1)"
      by (elim conjE)
    from c show "map_of (AList.update key (rstrip_newline a @ '' '' @ rstrip_newline b) md1) key =
          Some (rstrip_newline a @ '' '' @ rstrip_newline b)" by (elim conjE)
  qed
qed

text \<open>
  C5, the theorem at the key \<open>K\<close> with the values \<open>a\<close> and \<open>b\<close>: the two lines in
  direct succession, the second line on a mapping that holds \<open>K\<close> before another key,
  and the stream \<open>K a\<close>, \<open>RL x\<close>, \<open>K b\<close>.
\<close>

theorem gf_same_key_concatenates_witness:
  "parse_stockholm_line_gf ''#=GF K a\<newline>'' [] = Inr [(''K'', ''a'')]
   \<and> bind_err (parse_stockholm_line_gf ''#=GF K a\<newline>'' [])
       (parse_stockholm_line_gf ''#=GF K b\<newline>'') = Inr [(''K'', ''a b'')]
   \<and> parse_stockholm_line_gf ''#=GF K b\<newline>'' [(''K'', ''a''), (''RL'', ''x'')] =
       Inr [(''K'', ''a b''), (''RL'', ''x'')]
   \<and> markup_pass [''#=GF K a\<newline>'', ''#=GF RL x\<newline>'', ''#=GF K b\<newline>'']
       ([], [], []) =
       Inr ([(''K'', ''a b''), (''RL'', ''x'')], [], [])"
proof -
  let ?l1 = "''#=GF K a\<newline>''"
  let ?lm = "''#=GF RL x\<newline>''"
  let ?l2 = "''#=GF K b\<newline>''"
  let ?md1 = "[(''K'', ''a''), (''RL'', ''x'')] :: metadata_dict"
  have a1: "split_sep CHR '' '' 2 ?l1 = [''#=GF'', ''K'', ''a\<newline>'']" by code_simp
  have a2: "split_sep CHR '' '' 2 ?l2 = [''#=GF'', ''K'', ''b\<newline>'']" by code_simp
  have am: "split_sep CHR '' '' 2 ?lm = [''#=GF'', ''RL'', ''x\<newline>'']" by code_simp
  have fresh: "''K'' \<notin> fst ` set ([] :: metadata_dict)" by simp
  have held: "map_of ?md1 ''K'' = Some ''a''" by simp
  have between: "\<forall>l\<in>set [?lm]. startswith l ''#=GF'' \<longrightarrow>
      (\<forall>m v. split_sep CHR '' '' 2 l \<noteq> [m, ''K'', v])"
    by (simp add: am)
  have g1: "startswith ?l1 ''#=GF''" by code_simp
  have g2: "startswith ?l2 ''#=GF''" by code_simp
  have run: "markup_pass (?l1 # [?lm]) ([], [], []) = Inr (?md1, [], [])" by code_simp
  have hyp: "''K'' \<notin> fst ` set ([] :: metadata_dict) \<and> startswith ?l1 ''#=GF'' \<and>
      startswith ?l2 ''#=GF'' \<and>
      (\<forall>l\<in>set [?lm]. startswith l ''#=GF'' \<longrightarrow>
         (\<forall>m v. split_sep CHR '' '' 2 l \<noteq> [m, ''K'', v])) \<and>
      markup_pass (?l1 # [?lm]) ([], [], []) = Inr (?md1, [], [])"
    using fresh g1 g2 between run by (intro conjI)
  have e1: "[] @ [(''K'', rstrip_newline ''a\<newline>'')] = [(''K'', ''a'')]" by code_simp
  have e2: "[] @ [(''K'', rstrip_newline ''a\<newline>'' @ '' '' @ rstrip_newline ''b\<newline>'')] =
              [(''K'', ''a b'')]" by code_simp
  have e3: "AList.update ''K'' (''a'' @ '' '' @ rstrip_newline ''b\<newline>'') ?md1 =
              [(''K'', ''a b''), (''RL'', ''x'')]" by code_simp
  have e4: "AList.update ''K'' (rstrip_newline ''a\<newline>'' @ '' '' @ rstrip_newline ''b\<newline>'') ?md1 =
              [(''K'', ''a b''), (''RL'', ''x'')]" by code_simp
  have e5: "?l1 # [?lm] @ [?l2] = [?l1, ?lm, ?l2]" by simp
  have r1: "parse_stockholm_line_gf ?l1 [] = Inr [(''K'', ''a'')]"
    using gf_same_key_concatenates[where md = "[]", OF a1 a2, THEN conjunct1, THEN mp,
        OF fresh, THEN conjunct1]
    unfolding e1 .
  have r2: "bind_err (parse_stockholm_line_gf ?l1 []) (parse_stockholm_line_gf ?l2) =
              Inr [(''K'', ''a b'')]"
    using gf_same_key_concatenates[where md = "[]", OF a1 a2, THEN conjunct1, THEN mp,
        OF fresh, THEN conjunct2]
    unfolding e2 .
  have r3: "parse_stockholm_line_gf ?l2 ?md1 = Inr [(''K'', ''a b''), (''RL'', ''x'')]"
    using gf_same_key_concatenates[where md = ?md1, OF a1 a2, THEN conjunct2, THEN conjunct1,
        THEN spec, THEN mp, OF held, THEN conjunct1]
    unfolding e3 .
  have r4: "markup_pass [?l1, ?lm, ?l2] ([], [], []) =
              Inr ([(''K'', ''a b''), (''RL'', ''x'')], [], [])"
    using gf_same_key_concatenates[where md = "[]", OF a1 a2, THEN conjunct2, THEN conjunct2,
        THEN mp, OF hyp, THEN conjunct2, THEN conjunct1]
    unfolding e4 e5 .
  from r1 r2 r3 r4 show ?thesis by (intro conjI)
qed

text \<open>
  C6. A \<open>#=GC\<close> line whose feature label is already a key of the column metadata fails
  with ``Found duplicate GC label'', in the parser and so in the markup loop that calls
  it; nothing is overwritten. A \<open>#=GC\<close> line with a fresh label and a column-data token
  stores the token as the list of its single characters.
\<close>

theorem gc_duplicate_label_rejected:
  assumes "split_ws line = m # label # rest"
  shows "(label \<in> fst ` set positional_metadata \<longrightarrow>
            parse_stockholm_line_gc line positional_metadata =
              Inl (StockholmFormatError (DuplicateGC label))) \<and>
         (label \<in> fst ` set positional_metadata \<and> startswith line ''#=GC'' \<longrightarrow>
            markup_pass (line # fh) (md, dna_data, positional_metadata) =
              Inl (StockholmFormatError (DuplicateGC label))) \<and>
         (label \<notin> fst ` set positional_metadata \<and> rest = tok # others \<longrightarrow>
            parse_stockholm_line_gc line positional_metadata =
              Inr (positional_metadata @ [(label, list_of_str tok)]))"
proof (intro conjI impI)
  assume "label \<in> fst ` set positional_metadata"
  from parse_gc_duplicate[OF assms this]
  show "parse_stockholm_line_gc line positional_metadata =
          Inl (StockholmFormatError (DuplicateGC label))" .
next
  assume "label \<in> fst ` set positional_metadata \<and> startswith line ''#=GC''"
  then have dup: "label \<in> fst ` set positional_metadata" and gc: "startswith line ''#=GC''"
    by simp_all
  show "markup_pass (line # fh) (md, dna_data, positional_metadata) =
          Inl (StockholmFormatError (DuplicateGC label))"
    unfolding markup_pass_gc_step[OF gc] parse_gc_duplicate[OF assms dup] by simp
next
  assume "label \<notin> fst ` set positional_metadata \<and> rest = tok # others"
  with assms have sp: "split_ws line = m # label # tok # others"
    and fresh: "label \<notin> fst ` set positional_metadata" by simp_all
  from parse_gc_fresh[OF sp fresh]
  show "parse_stockholm_line_gc line positional_metadata =
          Inr (positional_metadata @ [(label, list_of_str tok)])" .
qed

text \<open>C6, the theorem at a first and a repeated \<open>#=GC SS_cons\<close> line.\<close>

theorem gc_duplicate_label_rejected_witness:
  "parse_stockholm_line_gc ''#=GC SS_cons .<>.\<newline>'' [] =
     Inr [(''SS_cons'', [''.'', ''<'', ''>'', ''.''])]
   \<and> parse_stockholm_line_gc ''#=GC SS_cons .<>.\<newline>''
       [(''SS_cons'', [''.'', ''<'', ''>'', ''.''])] =
     Inl (StockholmFormatError (DuplicateGC ''SS_cons''))
   \<and> markup_pass [''#=GC SS_cons .<>.\<newline>'', ''//\<newline>'']
       ([], [], [(''SS_cons'', [''.'', ''<'', ''>'', ''.''])]) =
     Inl (StockholmFormatError (DuplicateGC ''SS_cons''))"
proof -
  let ?pm = "[(''SS_cons'', [''.'', ''<'', ''>'', ''.''])]"
  have sp: "split_ws ''#=GC SS_cons .<>.\<newline>'' = ''#=GC'' # ''SS_cons'' # [''.<>.'']"
    by code_simp
  have gc: "startswith ''#=GC SS_cons .<>.\<newline>'' ''#=GC''" by code_simp
  have dup: "''SS_cons'' \<in> fst ` set ?pm" by simp
  have fresh: "''SS_cons'' \<notin> fst ` set ([] :: pos_metadata_dict) \<and> [''.<>.''] = ''.<>.'' # []"
    by simp
  have l: "list_of_str ''.<>.'' = [''.'', ''<'', ''>'', ''.'']" by code_simp
  from gc_duplicate_label_rejected[OF sp, of "[]" "[]" "[]" "[]" "''.<>.''" "[]"] fresh
  have r1: "parse_stockholm_line_gc ''#=GC SS_cons .<>.\<newline>'' [] =
              Inr ([] @ [(''SS_cons'', list_of_str ''.<>.'')])" by blast
  from gc_duplicate_label_rejected[OF sp, of ?pm "[''//\<newline>'']" "[]" "[]"] dup gc
  have r2: "parse_stockholm_line_gc ''#=GC SS_cons .<>.\<newline>'' ?pm =
              Inl (StockholmFormatError (DuplicateGC ''SS_cons''))"
    and r3: "markup_pass [''#=GC SS_cons .<>.\<newline>'', ''//\<newline>''] ([], [], ?pm) =
              Inl (StockholmFormatError (DuplicateGC ''SS_cons''))" by blast+
  from r1 r2 r3 show ?thesis by (simp add: l)
qed

text \<open>
  C4. Whenever the reader returns an alignment, the index handed to \<open>TabularMSA\<close> is the
  list of the labels of the data lines in stream order, each label occurring once (so
  the order is that of first appearance); the sequences handed over are, position by
  position, what the constructor made of the sequence tokens of those data lines. The
  labels depend on the data lines alone, not on where markup lines stand between them.
\<close>

theorem sequence_order_is_data_line_order:
  assumes "stockholm_to_tabular_msa constructor tabular_msa fh = Inr msa"
  shows "\<exists>seqs md pm.
           tabular_msa seqs md pm (data_labels fh) = Inr msa \<and>
           distinct (data_labels fh) \<and>
           length (data_tokens fh) = length (data_labels fh) \<and>
           list_all2 (\<lambda>tok s. \<exists>m q. constructor tok m q = Inr s) (data_tokens fh) seqs \<and>
           data_labels fh = data_labels (filter is_data_line fh)"
proof (cases "data_pass fh []")
  case (Inl e)
  with assms show ?thesis by (simp add: stockholm_to_tabular_msa_def)
next
  case d0: (Inr dna0)
  show ?thesis
  proof (cases "markup_pass fh ([], dna0, [])")
    case (Inl e)
    with assms d0 show ?thesis by (simp add: stockholm_to_tabular_msa_def)
  next
    case (Inr st)
    obtain md dna pm where st: "st = (md, dna, pm)" by (cases st)
    with Inr have mk: "markup_pass fh ([], dna0, []) = Inr (md, dna, pm)" by simp
    show ?thesis
    proof (cases "assemble constructor dna")
      case (Inl e)
      with assms d0 mk show ?thesis by (simp add: stockholm_to_tabular_msa_def)
    next
      case asm: (Inr seqs)
      with assms d0 mk have
        "call_out (tabular_msa seqs md (none_if_empty pm) (map fst dna)) = Inr msa"
        by (simp add: stockholm_to_tabular_msa_def split: if_splits)
      then have call: "tabular_msa seqs md (none_if_empty pm) (map fst dna) = Inr msa"
        by (simp add: call_out_Inr)
      from data_pass_Inr[OF d0] have
        k0: "map fst dna0 = data_labels fh" and
        t0: "map (\<lambda>p. seq (snd p)) dna0 = data_tokens fh" by simp_all
      from markup_pass_Inr[OF mk] k0 t0 have
        k: "map fst dna = data_labels fh" and
        t: "map (\<lambda>p. seq (snd p)) dna = data_tokens fh" by simp_all
      from data_pass_distinct[OF d0] k0 have dist: "distinct (data_labels fh)" by simp
      have "length (map (\<lambda>p. seq (snd p)) dna) = length (map fst dna)" by simp
      then have len: "length (data_tokens fh) = length (data_labels fh)"
        unfolding k t .
      from assemble_Inr[OF asm] have
        "list_all2 (\<lambda>tok s. \<exists>m q. constructor tok m q = Inr s)
           (map (\<lambda>p. seq (snd p)) dna) seqs"
        by (simp add: list_all2_map1)
      with t have la: "list_all2 (\<lambda>tok s. \<exists>m q. constructor tok m q = Inr s)
           (data_tokens fh) seqs" by simp
      have "data_labels fh = data_labels (filter is_data_line fh)"
        by (simp add: data_labels_def)
      then have filt: "data_labels fh = data_labels (filter is_data_line fh)" .
      from call have call': "tabular_msa seqs md (none_if_empty pm) (data_labels fh) = Inr msa"
        unfolding k .
      from call' dist len la filt show ?thesis by (intro exI conjI)
    qed
  qed
qed

text \<open>
  C4, the theorem at a stream where a \<open>#=GR\<close> line for the second sequence comes before
  every data line.
\<close>

theorem sequence_order_is_data_line_order_witness:
  "stockholm_to_tabular_msa plain_constructor plain_msa
     [''# STOCKHOLM 1.0\<newline>'', ''#=GR s2 SS .<>.\<newline>'', ''#=GF RA a\<newline>'',
      ''s1 ACGT\<newline>'', ''#=GC SS_cons ....\<newline>'', ''s2 AC-T\<newline>'', ''//\<newline>''] =
   Inr ([(''ACGT'', None :: metadata_dict option, None :: pos_metadata_dict option), (''AC-T'', None :: metadata_dict option, Some [(''SS'', [''.'', ''<'', ''>'', ''.''])])],
        [(''RA'', ''a'')], Some [(''SS_cons'', [''.'', ''.'', ''.'', ''.''])], [''s1'', ''s2''])
   \<and> data_labels
     [''# STOCKHOLM 1.0\<newline>'', ''#=GR s2 SS .<>.\<newline>'', ''#=GF RA a\<newline>'',
      ''s1 ACGT\<newline>'', ''#=GC SS_cons ....\<newline>'', ''s2 AC-T\<newline>'', ''//\<newline>''] =
     [''s1'', ''s2'']
   \<and> (\<exists>seqs md pm.
         plain_msa seqs md pm [''s1'', ''s2''] =
           Inr ([(''ACGT'', None :: metadata_dict option, None :: pos_metadata_dict option),
                 (''AC-T'', None :: metadata_dict option, Some [(''SS'', [''.'', ''<'', ''>'', ''.''])])],
                [(''RA'', ''a'')], Some [(''SS_cons'', [''.'', ''.'', ''.'', ''.''])],
                [''s1'', ''s2'']) \<and>
         distinct [''s1'', ''s2''])"
proof -
  let ?fh = "[''# STOCKHOLM 1.0\<newline>'', ''#=GR s2 SS .<>.\<newline>'', ''#=GF RA a\<newline>'',
      ''s1 ACGT\<newline>'', ''#=GC SS_cons ....\<newline>'', ''s2 AC-T\<newline>'', ''//\<newline>'']"
  let ?msa = "([(''ACGT'', None :: metadata_dict option, None :: pos_metadata_dict option),
                (''AC-T'', None :: metadata_dict option, Some [(''SS'', [''.'', ''<'', ''>'', ''.''])])],
               [(''RA'', ''a'')], Some [(''SS_cons'', [''.'', ''.'', ''.'', ''.''])],
               [''s1'', ''s2''])"
  have run: "stockholm_to_tabular_msa plain_constructor plain_msa ?fh = Inr ?msa"
    by code_simp
  have labels: "data_labels ?fh = [''s1'', ''s2'']" by code_simp
  have ex: "\<exists>seqs md pm. plain_msa seqs md pm [''s1'', ''s2''] = Inr ?msa \<and>
              distinct [''s1'', ''s2'']"
  proof -
    from sequence_order_is_data_line_order[OF run]
    have "\<exists>seqs md pm. plain_msa seqs md pm (data_labels ?fh) = Inr ?msa \<and>
            distinct (data_labels ?fh)"
      by (elim exE conjE) (intro exI conjI)
    then show ?thesis unfolding labels .
  qed
  from run labels ex show ?thesis by (intro conjI)
qed

text \<open>
  C7. A data line whose label is already a key of \<open>dna_data\<close> fails with ``Found
  multiple data lines under same name''; a data line that is accepted leaves every
  earlier record as it was. In the reader: when the data lines before a data line have
  been read without error and one of them carries the same label, reading the stream
  fails with that error.
\<close>

theorem repeated_data_label_rejected:
  assumes "split_ws line = label # rest"
  shows "(label \<in> fst ` set dna_data \<longrightarrow>
            parse_stockholm_line_data line dna_data =
              Inl (StockholmFormatError (MultipleDataLines label))) \<and>
         (\<forall>dna'. parse_stockholm_line_data line dna_data = Inr dna' \<longrightarrow>
            take (length dna_data) dna' = dna_data) \<and>
         (is_data_line line \<and> label \<in> set (data_labels pre) \<and>
            (\<exists>d. data_pass pre [] = Inr d) \<longrightarrow>
            stockholm_to_tabular_msa constructor tabular_msa (pre @ line # post) =
              Inl (StockholmFormatError (MultipleDataLines label)))"
proof (intro conjI impI allI)
  assume "label \<in> fst ` set dna_data"
  from parse_data_seen[OF assms this]
  show "parse_stockholm_line_data line dna_data =
          Inl (StockholmFormatError (MultipleDataLines label))" .
next
  fix dna'
  assume "parse_stockholm_line_data line dna_data = Inr dna'"
  from parse_data_Inr[OF this] show "take (length dna_data) dna' = dna_data" by auto
next
  assume a: "is_data_line line \<and> label \<in> set (data_labels pre) \<and>
            (\<exists>d. data_pass pre [] = Inr d)"
  then obtain d where d: "data_pass pre [] = Inr d" by blast
  from a data_pass_keys[OF d] have seen: "label \<in> fst ` set d" by simp
  from a have "data_pass (line # post) d =
      bind_err (parse_stockholm_line_data line d) (data_pass post)" by simp
  with parse_data_seen[OF assms seen] have
    "data_pass (line # post) d = Inl (StockholmFormatError (MultipleDataLines label))"
    by simp
  with d have "data_pass (pre @ line # post) [] =
      Inl (StockholmFormatError (MultipleDataLines label))"
    by (simp add: data_pass_append)
  then show "stockholm_to_tabular_msa constructor tabular_msa (pre @ line # post) =
          Inl (StockholmFormatError (MultipleDataLines label))"
    by (simp add: stockholm_to_tabular_msa_def)
qed

text \<open>C7, the theorem at a repeated label \<open>s1\<close> and at a new label after \<open>s0\<close>.\<close>

theorem repeated_data_label_rejected_witness:
  "parse_stockholm_line_data ''s1 TTTT\<newline>''
     [(''s1'', \<lparr>seq = ''ACGT'', metadata = [], pos_metadata = []\<rparr>)] =
     Inl (StockholmFormatError (MultipleDataLines ''s1''))
   \<and> parse_stockholm_line_data ''s1 TTTT\<newline>''
     [(''s0'', \<lparr>seq = ''ACGT'', metadata = [], pos_metadata = []\<rparr>)] =
     Inr [(''s0'', \<lparr>seq = ''ACGT'', metadata = [], pos_metadata = []\<rparr>),
          (''s1'', \<lparr>seq = ''TTTT'', metadata = [], pos_metadata = []\<rparr>)]
   \<and> take (length [(''s0'', \<lparr>seq = ''ACGT'', metadata = [], pos_metadata = []\<rparr>)])
        [(''s0'', \<lparr>seq = ''ACGT'', metadata = [], pos_metadata = []\<rparr>),
         (''s1'', \<lparr>seq = ''TTTT'', metadata = [], pos_metadata = []\<rparr>)] =
       [(''s0'', \<lparr>seq = ''ACGT'', metadata = [], pos_metadata = []\<rparr>)]
   \<and> stockholm_to_tabular_msa plain_constructor plain_msa
       ([''s1 ACGT\<newline>''] @ ''s1 TTTT\<newline>'' # [''//\<newline>'']) =
     Inl (StockholmFormatError (MultipleDataLines ''s1''))"
proof -
  let ?r0 = "\<lparr>seq = ''ACGT'', metadata = [], pos_metadata = []\<rparr>"
  let ?r1 = "\<lparr>seq = ''TTTT'', metadata = [], pos_metadata = []\<rparr>"
  have sp: "split_ws ''s1 TTTT\<newline>'' = ''s1'' # [''TTTT'']" by code_simp
  have seen: "''s1'' \<in> fst ` set [(''s1'', ?r0)]" by simp
  have ok: "parse_stockholm_line_data ''s1 TTTT\<newline>'' [(''s0'', ?r0)] =
              Inr [(''s0'', ?r0), (''s1'', ?r1)]" by code_simp
  have drv: "is_data_line ''s1 TTTT\<newline>'' \<and> ''s1'' \<in> set (data_labels [''s1 ACGT\<newline>'']) \<and>
             (\<exists>d. data_pass [''s1 ACGT\<newline>''] [] = Inr d)"
  proof (intro conjI)
    show "is_data_line ''s1 TTTT\<newline>''" by code_simp
    show "''s1'' \<in> set (data_labels [''s1 ACGT\<newline>''])" by code_simp
    have "data_pass [''s1 ACGT\<newline>''] [] = Inr [(''s1'', ?r0)]" by code_simp
    then show "\<exists>d. data_pass [''s1 ACGT\<newline>''] [] = Inr d" by blast
  qed
  from repeated_data_label_rejected[OF sp, of "[(''s1'', ?r0)]" "[''s1 ACGT\<newline>'']"
      plain_constructor plain_msa "[''//\<newline>'']"] seen drv
  have r1: "parse_stockholm_line_data ''s1 TTTT\<newline>'' [(''s1'', ?r0)] =
              Inl (StockholmFormatError (MultipleDataLines ''s1''))"
    and r3: "stockholm_to_tabular_msa plain_constructor plain_msa
               ([''s1 ACGT\<newline>''] @ ''s1 TTTT\<newline>'' # [''//\<newline>'']) =
             Inl (StockholmFormatError (MultipleDataLines ''s1''))" by blast+
  from repeated_data_label_rejected[OF sp, of "[(''s0'', ?r0)]"] ok
  have r2: "take (length [(''s0'', ?r0)]) [(''s0'', ?r0), (''s1'', ?r1)] = [(''s0'', ?r0)]"
    by blast
  from r1 ok r2 r3 show ?thesis by blast
qed

text \<open>
  C8. A stream without data lines, the empty stream included, always fails; the failure
  is ``No data present in file'' whenever no markup line raises an error before the
  check is reached. A stream with at least one data line never fails with that error.
\<close>

theorem no_data_lines_fail:
  "(filter is_data_line fh = [] \<longrightarrow>
      (\<exists>e. stockholm_to_tabular_msa constructor tabular_msa fh = Inl e)) \<and>
   (filter is_data_line fh = [] \<and> (\<exists>st. markup_pass fh ([], [], []) = Inr st) \<longrightarrow>
      stockholm_to_tabular_msa constructor tabular_msa fh =
        Inl (StockholmFormatError NoDataPresent)) \<and>
   (filter is_data_line fh \<noteq> [] \<longrightarrow>
      stockholm_to_tabular_msa constructor tabular_msa fh \<noteq>
        Inl (StockholmFormatError NoDataPresent))"
proof (intro conjI impI)
  have ok: "stockholm_to_tabular_msa constructor tabular_msa fh =
              Inl (StockholmFormatError NoDataPresent)"
    if nd: "filter is_data_line fh = []" and mk: "markup_pass fh ([], [], []) = Inr st" for st
  proof -
    obtain md dna pm where st: "st = (md, dna, pm)" by (cases st)
    from markup_pass_Inr[OF mk[unfolded st]] have "dna = []" by simp
    with data_pass_no_data[OF nd, of "[]"] mk st show ?thesis
      by (simp add: stockholm_to_tabular_msa_def)
  qed
  {
    assume nd: "filter is_data_line fh = []"
    show "\<exists>e. stockholm_to_tabular_msa constructor tabular_msa fh = Inl e"
    proof (cases "markup_pass fh ([], [], [])")
      case (Inl e)
      with data_pass_no_data[OF nd, of "[]"] show ?thesis
        by (simp add: stockholm_to_tabular_msa_def)
    next
      case (Inr st)
      from ok[OF nd Inr] show ?thesis by blast
    qed
  }
  {
    assume "filter is_data_line fh = [] \<and> (\<exists>st. markup_pass fh ([], [], []) = Inr st)"
    then obtain st where "filter is_data_line fh = []" "markup_pass fh ([], [], []) = Inr st"
      by blast
    then show "stockholm_to_tabular_msa constructor tabular_msa fh =
        Inl (StockholmFormatError NoDataPresent)" by (rule ok)
  }
  {
    assume some: "filter is_data_line fh \<noteq> []"
    show "stockholm_to_tabular_msa constructor tabular_msa fh \<noteq>
        Inl (StockholmFormatError NoDataPresent)"
    proof (cases "data_pass fh []")
      case (Inl e)
      from data_pass_Inl[OF Inl] Inl show ?thesis
        by (auto simp: stockholm_to_tabular_msa_def)
    next
      case d0: (Inr dna0)
      from data_pass_length[OF d0] some have ne0: "dna0 \<noteq> []" by auto
      show ?thesis
      proof (cases "markup_pass fh ([], dna0, [])")
        case (Inl e)
        from markup_pass_Inl[OF Inl] Inl d0 show ?thesis
          by (auto simp: stockholm_to_tabular_msa_def)
      next
        case (Inr st)
        obtain md dna pm where st: "st = (md, dna, pm)" by (cases st)
        from markup_pass_Inr[OF Inr[unfolded st]] ne0 have ne: "dna \<noteq> []" by auto
        show ?thesis
        proof (cases "assemble constructor dna")
          case (Inl e)
          from assemble_Inl[OF Inl] Inl Inr st d0 show ?thesis
            by (auto simp: stockholm_to_tabular_msa_def)
        next
          case asm: (Inr seqs)
          from asm ne have "seqs \<noteq> []" by (auto simp: assemble_Nil_iff)
          with asm Inr st d0 show ?thesis
            by (auto simp: stockholm_to_tabular_msa_def dest: call_out_Inl)
        qed
      qed
    qed
  }
qed

text \<open>
  C8, the claim as stated fails: a stream with no data line and a \<open>#=GS\<close> line fails
  with ``Markup line references nonexistent data'', raised in the markup loop before the
  check for an empty result.
\<close>

theorem markup_error_before_no_data_counterexample:
  "filter is_data_line [''#=GS seq1 AC x\<newline>''] = []
   \<and> stockholm_to_tabular_msa plain_constructor plain_msa [''#=GS seq1 AC x\<newline>''] =
       Inl (StockholmFormatError (NonexistentData ''seq1''))"
  by code_simp

text \<open>
  C8, the theorem at a stream of markup only, the empty stream, a malformed markup line,
  and a stream with one data line.
\<close>

theorem no_data_lines_fail_witness:
  "filter is_data_line [''# STOCKHOLM 1.0\<newline>'', ''#=GF RA a\<newline>'', ''//\<newline>''] = []
   \<and> stockholm_to_tabular_msa plain_constructor plain_msa
       [''# STOCKHOLM 1.0\<newline>'', ''#=GF RA a\<newline>'', ''//\<newline>''] =
     Inl (StockholmFormatError NoDataPresent)
   \<and> stockholm_to_tabular_msa plain_constructor plain_msa [] =
     Inl (StockholmFormatError NoDataPresent)
   \<and> (\<exists>e. stockholm_to_tabular_msa plain_constructor plain_msa [''#=GF\<newline>''] = Inl e)
   \<and> filter is_data_line [''s1 ACGT\<newline>''] \<noteq> []
   \<and> stockholm_to_tabular_msa plain_constructor plain_msa [''s1 ACGT\<newline>''] \<noteq>
     Inl (StockholmFormatError NoDataPresent)"
proof -
  let ?fh = "[''# STOCKHOLM 1.0\<newline>'', ''#=GF RA a\<newline>'', ''//\<newline>'']"
  have a1: "filter is_data_line ?fh = []" by code_simp
  have "markup_pass ?fh ([], [], []) = Inr ([(''RA'', ''a'')], [], [])" by code_simp
  then have a2: "\<exists>st. markup_pass ?fh ([], [], []) = Inr st" by blast
  from no_data_lines_fail[of ?fh plain_constructor plain_msa] a1 a2
  have r1: "stockholm_to_tabular_msa plain_constructor plain_msa ?fh =
              Inl (StockholmFormatError NoDataPresent)" by blast
  have b1: "filter is_data_line ([] :: string list) = []" by simp
  have b2: "\<exists>st. markup_pass [] ([], [], []) = Inr st" by simp
  from no_data_lines_fail[of "[]" plain_constructor plain_msa] b1 b2
  have r2: "stockholm_to_tabular_msa plain_constructor plain_msa [] =
              Inl (StockholmFormatError NoDataPresent)" by blast
  have c1: "filter is_data_line [''#=GF\<newline>''] = []" by code_simp
  from no_data_lines_fail[of "[''#=GF\<newline>'']" plain_constructor plain_msa] c1
  have r3: "\<exists>e. stockholm_to_tabular_msa plain_constructor plain_msa [''#=GF\<newline>''] = Inl e"
    by blast
  have d1: "filter is_data_line [''s1 ACGT\<newline>''] \<noteq> []" by code_simp
  from no_data_lines_fail[of "[''s1 ACGT\<newline>'']" plain_constructor plain_msa] d1
  have r4: "stockholm_to_tabular_msa plain_constructor plain_msa [''s1 ACGT\<newline>''] \<noteq>
              Inl (StockholmFormatError NoDataPresent)" by blast
  from a1 r1 r2 r3 d1 r4 show ?thesis by blast
qed

text \<open>
  C10. With at least two whitespace-delimited fields the data-line parser returns, or
  fails with the duplicate-label error only. A line with exactly one field makes it read
  past the end of the field list (\<open>IndexError\<close>, none of the module's own errors) when
  the label has not been seen before; when the label has been seen, the duplicate-label
  error is raised first.
\<close>

theorem data_line_needs_two_fields:
  "(2 \<le> length (split_ws line) \<longrightarrow>
      (\<exists>dna'. parse_stockholm_line_data line dna_data = Inr dna') \<or>
      (\<exists>k. parse_stockholm_line_data line dna_data =
         Inl (StockholmFormatError (MultipleDataLines k)))) \<and>
   (split_ws line = [label] \<and> label \<notin> fst ` set dna_data \<longrightarrow>
      parse_stockholm_line_data line dna_data = Inl IndexError) \<and>
   (split_ws line = [label] \<and> label \<in> fst ` set dna_data \<longrightarrow>
      parse_stockholm_line_data line dna_data =
        Inl (StockholmFormatError (MultipleDataLines label)))"
proof (intro conjI impI)
  assume "2 \<le> length (split_ws line)"
  then obtain k s rest where sp: "split_ws line = k # s # rest"
    by (cases "split_ws line"; cases "tl (split_ws line)") auto
  show "(\<exists>dna'. parse_stockholm_line_data line dna_data = Inr dna') \<or>
      (\<exists>k. parse_stockholm_line_data line dna_data =
         Inl (StockholmFormatError (MultipleDataLines k)))"
  proof (cases "k \<in> fst ` set dna_data")
    case True
    from parse_data_seen[OF sp True] show ?thesis by blast
  next
    case False
    from parse_data_new[OF sp False] show ?thesis by blast
  qed
next
  assume "split_ws line = [label] \<and> label \<notin> fst ` set dna_data"
  then show "parse_stockholm_line_data line dna_data = Inl IndexError"
    by (simp add: parse_data_no_token)
next
  assume "split_ws line = [label] \<and> label \<in> fst ` set dna_data"
  then show "parse_stockholm_line_data line dna_data =
        Inl (StockholmFormatError (MultipleDataLines label))"
    by (simp add: parse_data_seen)
qed

text \<open>
  C10, the claim as stated fails: the one-field line \<open>seq1\<close> is accepted by
  \<open>is_data_line\<close>, and with \<open>seq1\<close> already recorded the parser raises the
  duplicate-label error, not an out-of-range access.
\<close>

theorem seen_label_without_token_counterexample:
  "is_data_line ''seq1\<newline>''
   \<and> split_ws ''seq1\<newline>'' = [''seq1'']
   \<and> parse_stockholm_line_data ''seq1\<newline>''
       [(''seq1'', \<lparr>seq = ''ACGT'', metadata = [], pos_metadata = []\<rparr>)] =
     Inl (StockholmFormatError (MultipleDataLines ''seq1''))"
  by code_simp

text \<open>C10, the theorem at the line \<open>seq1\<close>, unseen and seen, and at a line with two fields.\<close>

theorem data_line_needs_two_fields_witness:
  "is_data_line ''seq1\<newline>''
   \<and> split_ws ''seq1\<newline>'' = [''seq1'']
   \<and> parse_stockholm_line_data ''seq1\<newline>'' [] = Inl IndexError
   \<and> parse_stockholm_line_data ''seq1\<newline>''
       [(''seq1'', \<lparr>seq = ''ACGT'', metadata = [], pos_metadata = []\<rparr>)] =
     Inl (StockholmFormatError (MultipleDataLines ''seq1''))
   \<and> 2 \<le> length (split_ws ''seq1 ACGT\<newline>'')
   \<and> ((\<exists>dna'. parse_stockholm_line_data ''seq1 ACGT\<newline>'' [] = Inr dna') \<or>
      (\<exists>k. parse_stockholm_line_data ''seq1 ACGT\<newline>'' [] =
         Inl (StockholmFormatError (MultipleDataLines k))))"
proof -
  let ?r = "\<lparr>seq = ''ACGT'', metadata = [], pos_metadata = []\<rparr>"
  have cls: "is_data_line ''seq1\<newline>''" by code_simp
  have sp: "split_ws ''seq1\<newline>'' = [''seq1'']" by code_simp
  have fresh: "''seq1'' \<notin> fst ` set ([] :: dna_data_dict)" by simp
  have seen: "''seq1'' \<in> fst ` set [(''seq1'', ?r)]" by simp
  have two: "2 \<le> length (split_ws ''seq1 ACGT\<newline>'')" by code_simp
  from data_line_needs_two_fields[of "''seq1\<newline>''" "[]" "''seq1''"] sp fresh
  have r1: "parse_stockholm_line_data ''seq1\<newline>'' [] = Inl IndexError" by blast
  from data_line_needs_two_fields[of "''seq1\<newline>''" "[(''seq1'', ?r)]" "''seq1''"] sp seen
  have r2: "parse_stockholm_line_data ''seq1\<newline>'' [(''seq1'', ?r)] =
              Inl (StockholmFormatError (MultipleDataLines ''seq1''))" by blast
  from data_line_needs_two_fields[of "''seq1 ACGT\<newline>''" "[]"] two
  have r3: "(\<exists>dna'. parse_stockholm_line_data ''seq1 ACGT\<newline>'' [] = Inr dna') \<or>
      (\<exists>k. parse_stockholm_line_data ''seq1 ACGT\<newline>'' [] =
         Inl (StockholmFormatError (MultipleDataLines k)))" by blast
  from cls sp r1 r2 two r3 show ?thesis by blast
qed

end
